theory Spec2Isabelle
  imports Complex_Main
begin

section \<open>Dates and times\<close>

text \<open>
  A naive Python \<^verbatim>\<open>datetime\<close> is a calendar day and a time of day. The day is kept
  as its proleptic Gregorian ordinal (what \<^verbatim>\<open>date.toordinal()\<close> returns), the time
  of day as microseconds since midnight. \<^verbatim>\<open>dt.date()\<close> is the field \<open>dt_date\<close>;
  \<^verbatim>\<open>a < b\<close> on two datetimes is the lexicographic order \<open>dt_less\<close>.
\<close>

record datetime =
  dt_date :: int
  dt_time :: nat

definition dt_less :: "datetime \<Rightarrow> datetime \<Rightarrow> bool" where
  "dt_less a b \<longleftrightarrow>
     dt_date a < dt_date b \<or> (dt_date a = dt_date b \<and> dt_time a < dt_time b)"

section \<open>The tables of models.py\<close>

text \<open>
  One record per model class, one field per column. The primary keys (\<^verbatim>\<open>id\<close> in both
  classes) are \<open>eid\<close> and \<open>tid\<close>. A table is the list of its rows in insertion order.
\<close>

record event =
  eid :: nat
  name :: string
  start_date :: datetime
  end_date :: datetime
  total_tickets :: rat
  tickets_sold :: int

record ticket =
  tid :: nat
  event_id :: nat
  redeemed :: bool
  sold_at :: datetime

record database =
  events :: "event list"
  tickets :: "ticket list"

definition empty_db :: database where
  "empty_db = \<lparr>events = [], tickets = []\<rparr>"

text \<open>\<^verbatim>\<open>Event.query.get(i)\<close> and \<^verbatim>\<open>Ticket.query.get(i)\<close>: the row with that key, if any.\<close>

definition get_event :: "database \<Rightarrow> nat \<Rightarrow> event option" where
  "get_event db i = find (\<lambda>e. eid e = i) (events db)"

definition get_ticket :: "database \<Rightarrow> nat \<Rightarrow> ticket option" where
  "get_ticket db i = find (\<lambda>t. tid t = i) (tickets db)"

text \<open>
  The key given to an inserted row: an integer primary key without a value gets one more
  than the largest key of the table (1 in an empty table).
\<close>

definition fresh_id :: "nat list \<Rightarrow> nat" where
  "fresh_id ids = Suc (fold max ids 0)"

section \<open>The session\<close>

text \<open>
  \<^verbatim>\<open>db.session\<close> works on its own view of the tables: assigning to an attribute of a
  loaded object, \<^verbatim>\<open>session.add\<close> and \<^verbatim>\<open>session.delete\<close> change the pending view
  only, and \<^verbatim>\<open>db.session.commit()\<close> makes the pending view the stored one. Each request
  gets a new session on the stored tables, and the session is removed when the request
  ends, dropping whatever was not committed.
\<close>

record session =
  stored :: database
  pending :: database

definition open_session :: "database \<Rightarrow> session" where
  "open_session db = \<lparr>stored = db, pending = db\<rparr>"

definition commit :: "session \<Rightarrow> session" where
  "commit s = s\<lparr>stored := pending s\<rparr>"

text \<open>The pending view after an attribute of a loaded row was assigned.\<close>

definition put_event :: "event \<Rightarrow> session \<Rightarrow> session" where
  "put_event e s =
     s\<lparr>pending := (pending s)\<lparr>events :=
          map (\<lambda>x. if eid x = eid e then e else x) (events (pending s))\<rparr>\<rparr>"

definition put_ticket :: "ticket \<Rightarrow> session \<Rightarrow> session" where
  "put_ticket t s =
     s\<lparr>pending := (pending s)\<lparr>tickets :=
          map (\<lambda>x. if tid x = tid t then t else x) (tickets (pending s))\<rparr>\<rparr>"

text \<open>\<^verbatim>\<open>db.session.add(obj)\<close> of a new object: a row with a fresh key.\<close>

definition add_event :: "event \<Rightarrow> session \<Rightarrow> session" where
  "add_event e s = s\<lparr>pending := (pending s)\<lparr>events := events (pending s) @ [e]\<rparr>\<rparr>"

definition add_ticket :: "ticket \<Rightarrow> session \<Rightarrow> session" where
  "add_ticket t s = s\<lparr>pending := (pending s)\<lparr>tickets := tickets (pending s) @ [t]\<rparr>\<rparr>"

text \<open>
  \<^verbatim>\<open>db.session.delete(event)\<close>: the relationship \<^verbatim>\<open>Event.tickets\<close> is declared with
  \<^verbatim>\<open>cascade="all, delete-orphan"\<close>, so the tickets of the event go with it.
\<close>

definition delete_cascade :: "nat \<Rightarrow> session \<Rightarrow> session" where
  "delete_cascade i s =
     s\<lparr>pending := \<lparr>events = filter (\<lambda>e. eid e \<noteq> i) (events (pending s)),
                    tickets = filter (\<lambda>t. event_id t \<noteq> i) (tickets (pending s))\<rparr>\<rparr>"

section \<open>Requests and replies\<close>

text \<open>
  The JSON body of a create or update request. The three text fields are strings, as
  app.py annotates them. \<^verbatim>\<open>total_tickets\<close> is any JSON number, an integer or a float such
  as 2.5, kept as the rational number it denotes: the handlers never test that it is whole,
  Python compares integers and floats by value, and the column keeps a fractional value as
  it is. (The values NaN and Infinity, which the JSON reader also accepts, fail the checks
  of both handlers and are never stored.) \<open>None\<close> is a JSON null (for \<^verbatim>\<open>name\<close> in
  create, read with \<^verbatim>\<open>data.get\<close>, also an absent key).
\<close>

record body =
  json_name :: "string option"
  json_start_date :: "string option"
  json_end_date :: "string option"
  json_total_tickets :: "rat option"

text \<open>
  One constructor for each way a handler leaves without its success reply:
  \<^item> \<open>NotFound\<close>: \<^verbatim>\<open>get_or_404\<close> found no row;
  \<^item> \<open>MissingFields\<close>: the \<^verbatim>\<open>not all([...])\<close> gate of create and update;
  \<^item> \<open>ParseError\<close>: \<^verbatim>\<open>strptime\<close> raised and the \<^verbatim>\<open>except\<close> branch was taken. The branch
    hands \<^verbatim>\<open>jsonify\<close> a Python set (\<^verbatim>\<open>{f'error: {e}'}\<close> in create, a dict holding
    \<^verbatim>\<open>{e}\<close> in update), which cannot be serialised: a \<^verbatim>\<open>TypeError\<close> leaves the handler;
  \<^item> \<open>StartInPast\<close>, \<open>EndBeforeStart\<close>, \<open>TicketsOutOfRange\<close>, \<open>TicketsBelowSold\<close>:
    the 400 replies of the field checks of create and update;
  \<^item> \<open>CannotDelete\<close>: the 400 reply of delete;
  \<^item> \<open>NoMoreTickets\<close>: the 400 reply of sell;
  \<^item> \<open>AlreadyRedeemed\<close>, \<open>OutOfWindow\<close>: the two 400 replies of redeem;
  \<^item> \<open>AttributeError\<close>: redeem read \<^verbatim>\<open>event.start_date\<close> on a ticket whose
    \<^verbatim>\<open>ticket.event\<close> is \<^verbatim>\<open>None\<close>.
\<close>

datatype error =
    NotFound
  | MissingFields
  | ParseError
  | StartInPast
  | EndBeforeStart
  | TicketsOutOfRange
  | TicketsBelowSold
  | CannotDelete
  | NoMoreTickets
  | AlreadyRedeemed
  | OutOfWindow
  | AttributeError

text \<open>
  The HTTP status of each error: 404 from \<^verbatim>\<open>get_or_404\<close>, 400 where the handler returns
  its error reply, 500 where an exception leaves the handler.
\<close>

fun http_status :: "error \<Rightarrow> nat" where
  "http_status NotFound = 404"
| "http_status ParseError = 500"
| "http_status AttributeError = 500"
| "http_status _ = 400"

text \<open>
  The success replies. \<open>EventCreated i\<close> carries the \<^verbatim>\<open>event_id\<close> of the reply of create,
  \<open>TicketSold i\<close> the value sent under the key \<^verbatim>\<open>ticket_id\<close> by sell.
\<close>

datatype reply =
    EventCreated nat
  | EventUpdated
  | EventDeleted
  | TicketSold nat
  | TicketRedeemed

section \<open>The handlers of app.py\<close>

text \<open>
  A handler takes the library function \<^verbatim>\<open>datetime.strptime(_, "%d/%m/%Y")\<close> (\<open>None\<close>
  where it raises), the value of \<^verbatim>\<open>datetime.now()\<close>, its arguments and the session, and
  returns its reply with the session as it leaves it. A falsy field (null, the empty
  string, 0) fails the \<^verbatim>\<open>all([...])\<close> gate.
\<close>

type_synonym parser = "string \<Rightarrow> datetime option"

type_synonym outcome = "(error + reply) \<times> session"

definition create_event :: "parser \<Rightarrow> datetime \<Rightarrow> body \<Rightarrow> session \<Rightarrow> outcome" where
  "create_event strptime now data s =
     (case (json_name data, json_start_date data, json_end_date data, json_total_tickets data) of
        (Some nm, Some start_date_str, Some end_date_str, Some n) \<Rightarrow>
          if nm = [] \<or> start_date_str = [] \<or> end_date_str = [] \<or> n = 0
          then (Inl MissingFields, s)
          else
            (case strptime start_date_str of
               None \<Rightarrow> (Inl ParseError, s)
             | Some sd \<Rightarrow>
                 (case strptime end_date_str of
                    None \<Rightarrow> (Inl ParseError, s)
                  | Some ed \<Rightarrow>
                      if dt_date sd < dt_date now then (Inl StartInPast, s)
                      else if dt_date ed < dt_date sd then (Inl EndBeforeStart, s)
                      else if \<not> (1 \<le> n \<and> n \<le> 300) then (Inl TicketsOutOfRange, s)
                      else
                        let i = fresh_id (map eid (events (pending s)));
                            new_event = \<lparr>eid = i, name = nm, start_date = sd, end_date = ed,
                                         total_tickets = n, tickets_sold = 0\<rparr>
                        in (Inr (EventCreated i), commit (add_event new_event s))))
      | _ \<Rightarrow> (Inl MissingFields, s))"

text \<open>
  The four blocks of \<^verbatim>\<open>update_event\<close> (lines 103-104, 106-113, 115-123, 125-130). Each
  one checks its field against the event object as the blocks before it left it and, as
  its last statement, assigns the field. The guards \<^verbatim>\<open>if name:\<close>, \<^verbatim>\<open>if start_date_str:\<close>
  and \<^verbatim>\<open>if end_date_str:\<close> test for a non-empty string; the guard
  \<^verbatim>\<open>if total_tickets is not None:\<close> holds for every integer.
\<close>

definition update_name :: "string \<Rightarrow> event \<Rightarrow> error + event" where
  "update_name nm ev = Inr (if nm \<noteq> [] then ev\<lparr>name := nm\<rparr> else ev)"

definition update_start_date :: "parser \<Rightarrow> datetime \<Rightarrow> string \<Rightarrow> event \<Rightarrow> error + event" where
  "update_start_date strptime now start_date_str ev =
     (if start_date_str \<noteq> [] then
        (case strptime start_date_str of
           None \<Rightarrow> Inl ParseError
         | Some sd \<Rightarrow>
             if dt_date sd < dt_date now then Inl StartInPast
             else Inr (ev\<lparr>start_date := sd\<rparr>))
      else Inr ev)"

definition update_end_date :: "parser \<Rightarrow> string \<Rightarrow> event \<Rightarrow> error + event" where
  "update_end_date strptime end_date_str ev =
     (if end_date_str \<noteq> [] then
        (case strptime end_date_str of
           None \<Rightarrow> Inl ParseError
         | Some ed \<Rightarrow>
             if dt_date ed < dt_date (start_date ev) then Inl EndBeforeStart
             else Inr (ev\<lparr>end_date := ed\<rparr>))
      else Inr ev)"

definition update_total_tickets :: "rat \<Rightarrow> event \<Rightarrow> error + event" where
  "update_total_tickets n ev =
     (if n < of_int (tickets_sold ev) then Inl TicketsBelowSold
      else if \<not> (1 \<le> n \<and> n \<le> 300) then Inl TicketsOutOfRange
      else Inr (ev\<lparr>total_tickets := n\<rparr>))"

text \<open>
  The blocks run in the order they are written; the first error return ends the handler,
  with the event object as the earlier blocks left it.
\<close>

fun in_order :: "(event \<Rightarrow> error + event) list \<Rightarrow> event \<Rightarrow> error option \<times> event" where
  "in_order [] ev = (None, ev)"
| "in_order (f # fs) ev =
     (case f ev of Inl err \<Rightarrow> (Some err, ev) | Inr ev' \<Rightarrow> in_order fs ev')"

definition update_event :: "parser \<Rightarrow> datetime \<Rightarrow> nat \<Rightarrow> body \<Rightarrow> session \<Rightarrow> outcome" where
  "update_event strptime now i data s =
     (case get_event (pending s) i of
        None \<Rightarrow> (Inl NotFound, s)
      | Some ev \<Rightarrow>
          (case (json_name data, json_start_date data, json_end_date data,
                 json_total_tickets data) of
             (Some nm, Some start_date_str, Some end_date_str, Some n) \<Rightarrow>
               if nm = [] \<or> start_date_str = [] \<or> end_date_str = [] \<or> n = 0
               then (Inl MissingFields, s)
               else
                 (case in_order [update_name nm, update_start_date strptime now start_date_str,
                                 update_end_date strptime end_date_str, update_total_tickets n] ev of
                    (Some err, ev') \<Rightarrow> (Inl err, put_event ev' s)
                  | (None, ev') \<Rightarrow> (Inr EventUpdated, commit (put_event ev' s)))
           | _ \<Rightarrow> (Inl MissingFields, s)))"

definition delete_event :: "datetime \<Rightarrow> nat \<Rightarrow> session \<Rightarrow> outcome" where
  "delete_event now i s =
     (case get_event (pending s) i of
        None \<Rightarrow> (Inl NotFound, s)
      | Some ev \<Rightarrow>
          if 0 < tickets_sold ev \<and> dt_less now (end_date ev) then (Inl CannotDelete, s)
          else (Inr EventDeleted, commit (delete_cascade i s)))"

text \<open>
  The new ticket takes the defaults of its columns (\<^verbatim>\<open>redeemed\<close> false, \<^verbatim>\<open>sold_at\<close> the
  current time) and a fresh key; the reply sends \<^verbatim>\<open>ticket.event_id\<close>.
\<close>

definition sell_ticket :: "datetime \<Rightarrow> nat \<Rightarrow> session \<Rightarrow> outcome" where
  "sell_ticket now i s =
     (case get_event (pending s) i of
        None \<Rightarrow> (Inl NotFound, s)
      | Some ev \<Rightarrow>
          if total_tickets ev \<le> of_int (tickets_sold ev) then (Inl NoMoreTickets, s)
          else
            let new_ticket = \<lparr>tid = fresh_id (map tid (tickets (pending s))), event_id = i,
                              redeemed = False, sold_at = now\<rparr>;
                s1 = put_event (ev\<lparr>tickets_sold := tickets_sold ev + 1\<rparr>) s
            in (Inr (TicketSold (event_id new_ticket)), commit (add_ticket new_ticket s1)))"

definition redeem_ticket :: "datetime \<Rightarrow> nat \<Rightarrow> session \<Rightarrow> outcome" where
  "redeem_ticket now i s =
     (case get_ticket (pending s) i of
        None \<Rightarrow> (Inl NotFound, s)
      | Some t \<Rightarrow>
          if redeemed t then (Inl AlreadyRedeemed, s)
          else
            (case get_event (pending s) (event_id t) of
               None \<Rightarrow> (Inl AttributeError, s)
             | Some ev \<Rightarrow>
                 if \<not> (dt_date (start_date ev) \<le> dt_date now \<and> dt_date now \<le> dt_date (end_date ev))
                 then (Inl OutOfWindow, s)
                 else (Inr TicketRedeemed, commit (put_ticket (t\<lparr>redeemed := True\<rparr>) s))))"

section \<open>Serving requests\<close>

datatype request =
    CreateEvent body
  | UpdateEvent nat body
  | DeleteEvent nat
  | SellTicket nat
  | RedeemTicket nat

fun handle :: "parser \<Rightarrow> datetime \<Rightarrow> request \<Rightarrow> session \<Rightarrow> outcome" where
  "handle strptime now (CreateEvent data) s = create_event strptime now data s"
| "handle strptime now (UpdateEvent i data) s = update_event strptime now i data s"
| "handle strptime now (DeleteEvent i) s = delete_event now i s"
| "handle strptime now (SellTicket i) s = sell_ticket now i s"
| "handle strptime now (RedeemTicket i) s = redeem_ticket now i s"

text \<open>
  One request: a session is opened on the stored tables, the handler runs, and the session
  is removed. What the next request sees is the stored view.
\<close>

definition serve :: "parser \<Rightarrow> datetime \<Rightarrow> request \<Rightarrow> database \<Rightarrow> (error + reply) \<times> database" where
  "serve strptime now req db =
     (case handle strptime now req (open_session db) of (r, s) \<Rightarrow> (r, stored s))"

text \<open>A sequence of requests, each with the time it is served at: the replies and the final tables.\<close>

fun serve_all ::
  "parser \<Rightarrow> (datetime \<times> request) list \<Rightarrow> database \<Rightarrow> (error + reply) list \<times> database" where
  "serve_all strptime [] db = ([], db)"
| "serve_all strptime ((now, req) # rest) db =
     (case serve strptime now req db of
        (r, db') \<Rightarrow> (case serve_all strptime rest db' of (rs, db'') \<Rightarrow> (r # rs, db'')))"

section \<open>A worked scenario\<close>

text \<open>
  The example of the specification: the event "Concert" from 19/10/2030 to 20/10/2030 with
  two tickets, requested on 18/10/2030. \<open>calendar\<close> parses the four dates the scenario
  uses (to their ordinals, at midnight) and nothing else; \<open>noon d\<close> is 12:00 on day \<open>d\<close>.
\<close>

definition calendar :: parser where
  "calendar = map_of
     [(''18/10/2030'', \<lparr>dt_date = 741368, dt_time = 0\<rparr>),
      (''19/10/2030'', \<lparr>dt_date = 741369, dt_time = 0\<rparr>),
      (''20/10/2030'', \<lparr>dt_date = 741370, dt_time = 0\<rparr>),
      (''21/10/2030'', \<lparr>dt_date = 741371, dt_time = 0\<rparr>)]"

definition noon :: "int \<Rightarrow> datetime" where
  "noon d = \<lparr>dt_date = d, dt_time = 43200000000\<rparr>"

definition concert :: body where
  "concert = \<lparr>json_name = Some ''Concert'', json_start_date = Some ''19/10/2030'',
              json_end_date = Some ''20/10/2030'', json_total_tickets = Some 2\<rparr>"

text \<open>The stored tables after the concert was created in an empty database, and after one sale.\<close>

definition concert_event :: event where
  "concert_event = \<lparr>eid = 1, name = ''Concert'',
     start_date = \<lparr>dt_date = 741369, dt_time = 0\<rparr>, end_date = \<lparr>dt_date = 741370, dt_time = 0\<rparr>,
     total_tickets = 2, tickets_sold = 0\<rparr>"

definition concert_db :: database where
  "concert_db = \<lparr>events = [concert_event], tickets = []\<rparr>"

definition first_ticket :: ticket where
  "first_ticket = \<lparr>tid = 1, event_id = 1, redeemed = False, sold_at = noon 741369\<rparr>"

definition one_sold_db :: database where
  "one_sold_db = \<lparr>events = [concert_event\<lparr>tickets_sold := 1\<rparr>], tickets = [first_ticket]\<rparr>"

text \<open>The same event running one day longer, until 21/10/2030, with one ticket sold.\<close>

definition long_event :: event where
  "long_event = concert_event\<lparr>end_date := \<lparr>dt_date = 741371, dt_time = 0\<rparr>, tickets_sold := 1\<rparr>"

definition second_ticket :: ticket where
  "second_ticket = \<lparr>tid = 2, event_id = 1, redeemed = False, sold_at = noon 741369\<rparr>"

definition sold_out_db :: database where
  "sold_out_db =
     \<lparr>events = [concert_event\<lparr>tickets_sold := 2\<rparr>], tickets = [first_ticket, second_ticket]\<rparr>"

section \<open>Auxiliary facts\<close>

subsection \<open>Lists and keys\<close>

lemma fold_max_ge: "(a::nat) \<le> fold max ids a"
proof (induction ids arbitrary: a)
  case Nil
  show ?case by simp
next
  case (Cons x xs)
  have "a \<le> max x a" by simp
  also have "max x a \<le> fold max xs (max x a)" by (rule Cons.IH)
  finally show ?case by simp
qed

lemma fold_max_mem: "i \<in> set ids \<Longrightarrow> i \<le> fold max ids (a::nat)"
proof (induction ids arbitrary: a)
  case Nil
  then show ?case by simp
next
  case (Cons x xs)
  show ?case
  proof (cases "i = x")
    case True
    have "max x a \<le> fold max xs (max x a)" by (rule fold_max_ge)
    with True show ?thesis by simp
  next
    case False
    with Cons show ?thesis by simp
  qed
qed

lemma fresh_id_gt: "i \<in> set ids \<Longrightarrow> i < fresh_id ids"
  by (simp add: fresh_id_def fold_max_mem less_Suc_eq_le)

lemma find_append_cases:
  "find P (xs @ ys) = (case find P xs of Some x \<Rightarrow> Some x | None \<Rightarrow> find P ys)"
  by (induction xs) auto

lemma find_map_replace:
  "eid e' = i \<Longrightarrow>
   find (\<lambda>e. eid e = j) (map (\<lambda>x. if eid x = i then e' else x) xs) =
     (if j = i then map_option (\<lambda>_. e') (find (\<lambda>e. eid e = i) xs)
      else find (\<lambda>e. eid e = j) xs)"
  by (induction xs) auto

lemma find_filter_keep:
  "(\<And>x. P x \<Longrightarrow> Q x) \<Longrightarrow> find P (filter Q xs) = find P xs"
  by (induction xs) auto

lemma find_fresh_none: "find (\<lambda>e. f e = fresh_id (map f xs)) xs = None"
proof -
  have "\<forall>x\<in>set xs. f x \<noteq> fresh_id (map f xs)"
  proof
    fix x assume "x \<in> set xs"
    then have "f x \<in> set (map f xs)" by simp
    then have "f x < fresh_id (map f xs)" by (rule fresh_id_gt)
    then show "f x \<noteq> fresh_id (map f xs)" by simp
  qed
  then show ?thesis by (simp add: find_None_iff)
qed

lemma get_event_eid: "get_event db i = Some ev \<Longrightarrow> eid ev = i"
  by (auto simp: get_event_def find_Some_iff)

lemma get_event_mem: "get_event db i = Some ev \<Longrightarrow> ev \<in> set (events db)"
  by (auto simp: get_event_def find_Some_iff)

lemma get_ticket_tid: "get_ticket db i = Some t \<Longrightarrow> tid t = i"
  by (auto simp: get_ticket_def find_Some_iff)

lemma get_ticket_mem: "get_ticket db i = Some t \<Longrightarrow> t \<in> set (tickets db)"
  by (auto simp: get_ticket_def find_Some_iff)

subsection \<open>What each request does to the stored tables\<close>

lemma serve_sell:
  "serve strptime now (SellTicket i) db =
     (case get_event db i of
        None \<Rightarrow> (Inl NotFound, db)
      | Some ev \<Rightarrow>
          if total_tickets ev \<le> of_int (tickets_sold ev) then (Inl NoMoreTickets, db)
          else (Inr (TicketSold i),
                \<lparr>events = map (\<lambda>x. if eid x = i then ev\<lparr>tickets_sold := tickets_sold ev + 1\<rparr> else x) (events db),
                 tickets = tickets db @ [\<lparr>tid = fresh_id (map tid (tickets db)), event_id = i,
                              redeemed = False, sold_at = now\<rparr>]\<rparr>))"
  by (auto simp: serve_def sell_ticket_def open_session_def commit_def put_event_def add_ticket_def
       Let_def get_event_eid split: option.splits)

lemma serve_redeem:
  "serve strptime now (RedeemTicket i) db =
     (case get_ticket db i of
        None \<Rightarrow> (Inl NotFound, db)
      | Some t \<Rightarrow>
          if redeemed t then (Inl AlreadyRedeemed, db)
          else
            (case get_event db (event_id t) of
               None \<Rightarrow> (Inl AttributeError, db)
             | Some ev \<Rightarrow>
                 if \<not> (dt_date (start_date ev) \<le> dt_date now \<and> dt_date now \<le> dt_date (end_date ev))
                 then (Inl OutOfWindow, db)
                 else (Inr TicketRedeemed,
                       db\<lparr>tickets := map (\<lambda>x. if tid x = i then t\<lparr>redeemed := True\<rparr> else x) (tickets db)\<rparr>)))"
  by (auto simp: serve_def redeem_ticket_def open_session_def commit_def put_ticket_def
       Let_def get_ticket_tid split: option.splits)

lemma serve_delete:
  "serve strptime now (DeleteEvent i) db =
     (case get_event db i of
        None \<Rightarrow> (Inl NotFound, db)
      | Some ev \<Rightarrow>
          if 0 < tickets_sold ev \<and> dt_less now (end_date ev) then (Inl CannotDelete, db)
          else (Inr EventDeleted,
                \<lparr>events = filter (\<lambda>e. eid e \<noteq> i) (events db),
                 tickets = filter (\<lambda>t. event_id t \<noteq> i) (tickets db)\<rparr>))"
  by (auto simp: serve_def delete_event_def open_session_def commit_def delete_cascade_def
       split: option.splits)

lemma in_order_blocks:
  assumes "nm \<noteq> []" "ss \<noteq> []" "es \<noteq> []"
  shows "in_order [update_name nm, update_start_date strptime now ss,
                   update_end_date strptime es, update_total_tickets n] ev =
     (case strptime ss of
        None \<Rightarrow> (Some ParseError, ev\<lparr>name := nm\<rparr>)
      | Some sd \<Rightarrow>
          if dt_date sd < dt_date now then (Some StartInPast, ev\<lparr>name := nm\<rparr>)
          else
            (case strptime es of
               None \<Rightarrow> (Some ParseError, ev\<lparr>name := nm, start_date := sd\<rparr>)
             | Some ed \<Rightarrow>
                 if dt_date ed < dt_date sd
                 then (Some EndBeforeStart, ev\<lparr>name := nm, start_date := sd\<rparr>)
                 else if n < of_int (tickets_sold ev)
                 then (Some TicketsBelowSold, ev\<lparr>name := nm, start_date := sd, end_date := ed\<rparr>)
                 else if \<not> (1 \<le> n \<and> n \<le> 300)
                 then (Some TicketsOutOfRange, ev\<lparr>name := nm, start_date := sd, end_date := ed\<rparr>)
                 else (None, ev\<lparr>name := nm, start_date := sd, end_date := ed,
                                 total_tickets := n\<rparr>)))"
  using assms
  by (simp add: update_name_def update_start_date_def update_end_date_def
        update_total_tickets_def split: option.splits)

lemma in_order_eid:
  assumes "nm \<noteq> []" "ss \<noteq> []" "es \<noteq> []"
  shows "eid (snd (in_order [update_name nm, update_start_date strptime now ss,
                   update_end_date strptime es, update_total_tickets n] ev)) = eid ev"
  unfolding in_order_blocks[OF assms] by (simp split: option.splits)

lemma serve_create:
  "serve strptime now (CreateEvent data) db =
     (case (json_name data, json_start_date data, json_end_date data, json_total_tickets data) of
        (Some nm, Some start_date_str, Some end_date_str, Some n) \<Rightarrow>
          if nm = [] \<or> start_date_str = [] \<or> end_date_str = [] \<or> n = 0
          then (Inl MissingFields, db)
          else
            (case strptime start_date_str of
               None \<Rightarrow> (Inl ParseError, db)
             | Some sd \<Rightarrow>
                 (case strptime end_date_str of
                    None \<Rightarrow> (Inl ParseError, db)
                  | Some ed \<Rightarrow>
                      if dt_date sd < dt_date now then (Inl StartInPast, db)
                      else if dt_date ed < dt_date sd then (Inl EndBeforeStart, db)
                      else if \<not> (1 \<le> n \<and> n \<le> 300) then (Inl TicketsOutOfRange, db)
                      else (Inr (EventCreated (fresh_id (map eid (events db)))),
                            db\<lparr>events := events db @
                               [\<lparr>eid = fresh_id (map eid (events db)), name = nm, start_date = sd,
                                 end_date = ed, total_tickets = n, tickets_sold = 0\<rparr>]\<rparr>)))
      | _ \<Rightarrow> (Inl MissingFields, db))"
  by (simp add: serve_def create_event_def open_session_def commit_def add_event_def Let_def
       split: option.splits)

lemma serve_update:
  "serve strptime now (UpdateEvent i data) db =
     (case get_event db i of
        None \<Rightarrow> (Inl NotFound, db)
      | Some ev \<Rightarrow>
          (case (json_name data, json_start_date data, json_end_date data,
                 json_total_tickets data) of
             (Some nm, Some start_date_str, Some end_date_str, Some n) \<Rightarrow>
               if nm = [] \<or> start_date_str = [] \<or> end_date_str = [] \<or> n = 0
               then (Inl MissingFields, db)
               else
                 (case in_order [update_name nm, update_start_date strptime now start_date_str,
                                 update_end_date strptime end_date_str, update_total_tickets n] ev of
                    (Some err, ev') \<Rightarrow> (Inl err, db)
                  | (None, ev') \<Rightarrow>
                      (Inr EventUpdated,
                       db\<lparr>events := map (\<lambda>x. if eid x = i then ev' else x) (events db)\<rparr>))
           | _ \<Rightarrow> (Inl MissingFields, db)))"
proof (cases "get_event db i")
  case None
  then show ?thesis
    by (simp add: serve_def update_event_def open_session_def)
next
  case (Some ev)
  have key: "eid ev = i" using Some by (rule get_event_eid)
  show ?thesis
  proof (cases "\<exists>nm ss es n. json_name data = Some nm \<and> json_start_date data = Some ss \<and>
                  json_end_date data = Some es \<and> json_total_tickets data = Some n \<and>
                  nm \<noteq> [] \<and> ss \<noteq> [] \<and> es \<noteq> [] \<and> n \<noteq> 0")
    case True
    then obtain nm ss es n where f: "json_name data = Some nm" "json_start_date data = Some ss"
      "json_end_date data = Some es" "json_total_tickets data = Some n"
      and ne: "nm \<noteq> []" "ss \<noteq> []" "es \<noteq> []" and n0: "n \<noteq> 0" by blast
    obtain r ev' where io: "in_order [update_name nm, update_start_date strptime now ss,
                   update_end_date strptime es, update_total_tickets n] ev = (r, ev')"
      by (cases "in_order [update_name nm, update_start_date strptime now ss,
                   update_end_date strptime es, update_total_tickets n] ev") blast
    have e: "eid ev' = i"
      using in_order_eid[OF ne, of strptime now n ev] key by (simp only: io snd_conv)
    show ?thesis
      using e by (simp add: serve_def update_event_def open_session_def Some f ne n0 commit_def
        put_event_def io del: in_order.simps split: option.splits)
  next
    case False
    then show ?thesis
      by (auto simp: serve_def update_event_def open_session_def Some split: option.splits)
  qed
qed

lemmas scenario_defs = calendar_def noon_def concert_def concert_event_def concert_db_def
  first_ticket_def one_sold_db_def empty_db_def
  second_ticket_def sold_out_db_def

lemmas handler_defs = serve_def create_event_def update_event_def delete_event_def
  sell_ticket_def redeem_ticket_def open_session_def commit_def put_event_def put_ticket_def
  add_event_def add_ticket_def delete_cascade_def get_event_def get_ticket_def fresh_id_def
  update_name_def update_start_date_def update_end_date_def update_total_tickets_def dt_less_def
  Let_def

lemma serve_error_unchanged:
  assumes "fst (serve strptime now req db) = Inl err"
  shows "snd (serve strptime now req db) = db"
proof (cases req)
  case (CreateEvent data)
  with assms show ?thesis
    by (auto simp: serve_def create_event_def open_session_def Let_def
          split: option.splits if_splits)
next
  case (UpdateEvent i data)
  with assms show ?thesis
    by (auto simp: serve_def update_event_def open_session_def put_event_def
          simp del: in_order.simps split: option.splits if_splits prod.splits)
next
  case (DeleteEvent i)
  with assms show ?thesis
    by (auto simp: serve_delete split: option.splits if_splits)
next
  case (SellTicket i)
  with assms show ?thesis
    by (auto simp: serve_sell split: option.splits if_splits)
next
  case (RedeemTicket i)
  with assms show ?thesis
    by (auto simp: serve_redeem split: option.splits if_splits)
qed

text \<open>
  The session of a failing update does hold the assignments made before the failing check
  (here the new name); they are dropped with the session.
\<close>

lemma update_event_pending_name:
  "update_event calendar (noon 741369) 1
     (concert\<lparr>json_name := Some ''Renamed'', json_total_tickets := Some 1\<rparr>)
     (open_session sold_out_db) =
   (Inl TicketsBelowSold,
    \<lparr>stored = sold_out_db,
     pending = sold_out_db\<lparr>events := [concert_event\<lparr>name := ''Renamed'', tickets_sold := 2\<rparr>]\<rparr>\<rparr>)"
  by (simp add: scenario_defs handler_defs)

subsection \<open>A successful update\<close>

lemma in_order_success:
  assumes ne: "nm \<noteq> []" "ss \<noteq> []" "es \<noteq> []"
    and ok: "in_order [update_name nm, update_start_date strptime now ss,
                   update_end_date strptime es, update_total_tickets n] ev = (None, ev')"
  shows "\<exists>sd ed. strptime ss = Some sd \<and> strptime es = Some ed \<and>
           \<not> dt_date sd < dt_date now \<and> \<not> dt_date ed < dt_date sd \<and>
           \<not> n < of_int (tickets_sold ev) \<and> 1 \<le> n \<and> n \<le> 300 \<and>
           ev' = ev\<lparr>name := nm, start_date := sd, end_date := ed, total_tickets := n\<rparr>"
  using ok unfolding in_order_blocks[OF ne]
  by (auto split: option.splits if_splits)

subsection \<open>Invariants of the stored tables\<close>

lemma serve_all_invariant:
  assumes step: "\<And>now req db. P db \<Longrightarrow> P (snd (serve strptime now req db))"
    and init: "P db"
  shows "P (snd (serve_all strptime reqs db))"
  using init
proof (induction reqs arbitrary: db)
  case Nil
  then show ?case by simp
next
  case (Cons a reqs)
  obtain now req where a: "a = (now, req)" by (cases a)
  have "P (snd (serve strptime now req db))" using Cons.prems by (rule step)
  then have "P (snd (serve_all strptime reqs (snd (serve strptime now req db))))"
    by (rule Cons.IH)
  then show ?case by (auto simp: a split: prod.splits)
qed

lemma get_event_appended:
  assumes "eid e = fresh_id (map eid (events db))"
  shows "get_event (db\<lparr>events := events db @ [e]\<rparr>) (fresh_id (map eid (events db))) = Some e"
  using assms by (simp add: get_event_def find_append_cases find_fresh_none)

lemma create_event_row:
  assumes "serve strptime now (CreateEvent data) db = (Inr (EventCreated i), db')"
  shows "\<exists>nm ss es n sd ed.
     json_name data = Some nm \<and> json_start_date data = Some ss \<and> json_end_date data = Some es \<and>
     json_total_tickets data = Some n \<and> strptime ss = Some sd \<and> strptime es = Some ed \<and>
     dt_date now \<le> dt_date sd \<and> dt_date sd \<le> dt_date ed \<and> 1 \<le> n \<and> n \<le> 300 \<and>
     i = fresh_id (map eid (events db)) \<and>
     db' = db\<lparr>events := events db @
              [\<lparr>eid = i, name = nm, start_date = sd, end_date = ed, total_tickets = n,
                tickets_sold = 0\<rparr>]\<rparr> \<and>
     get_event db' i = Some \<lparr>eid = i, name = nm, start_date = sd, end_date = ed,
                total_tickets = n, tickets_sold = 0\<rparr>"
  using assms
  by (auto simp: serve_create get_event_appended split: option.splits if_splits)

lemma sell_refused:
  assumes "get_event db i = Some e" "total_tickets e \<le> of_int (tickets_sold e)"
  shows "serve strptime now (SellTicket i) db = (Inl NoMoreTickets, db)"
  using assms by (simp add: serve_sell)

lemma update_below_sold_refused:
  assumes "get_event db i = Some e" "json_total_tickets data = Some n" "n < of_int (tickets_sold e)"
  shows "\<exists>err. serve strptime now (UpdateEvent i data) db = (Inl err, db)"
proof -
  have "\<exists>err. fst (serve strptime now (UpdateEvent i data) db) = Inl err"
    using assms
    by (auto simp: serve_update simp del: in_order.simps dest!: in_order_success[rotated 3]
          split: option.splits if_splits prod.splits)
  then obtain err where e: "fst (serve strptime now (UpdateEvent i data) db) = Inl err" ..
  then have "snd (serve strptime now (UpdateEvent i data) db) = db"
    by (rule serve_error_unchanged)
  with e show ?thesis by (metis prod.collapse)
qed

lemma sell_success:
  assumes "get_event db i = Some ev" "of_int (tickets_sold ev) < total_tickets ev"
  shows "serve strptime now (SellTicket i) db =
     (Inr (TicketSold i),
      \<lparr>events = map (\<lambda>x. if eid x = i then ev\<lparr>tickets_sold := tickets_sold ev + 1\<rparr> else x) (events db),
       tickets = tickets db @ [\<lparr>tid = fresh_id (map tid (tickets db)), event_id = i,
                    redeemed = False, sold_at = now\<rparr>]\<rparr>)"
  using assms by (simp add: serve_sell)

subsection \<open>Runs of sales\<close>

lemma serve_all_append:
  "serve_all strptime (xs @ ys) db =
     (case serve_all strptime xs db of
        (rs, db') \<Rightarrow> (case serve_all strptime ys db' of (rs', db'') \<Rightarrow> (rs @ rs', db'')))"
  by (induction xs arbitrary: db) (auto split: prod.splits)

lemma get_event_after_sell:
  assumes "get_event db i = Some ev" "of_int (tickets_sold ev) < total_tickets ev"
  shows "get_event (snd (serve strptime now (SellTicket i) db)) i =
           Some (ev\<lparr>tickets_sold := tickets_sold ev + 1\<rparr>)"
  using assms(1)
  by (simp add: sell_success[OF assms] get_event_def find_map_replace get_event_eid[OF assms(1)])

lemma sell_run:
  assumes "get_event db i = Some ev"
    and "of_int (tickets_sold ev + int (length whens)) \<le> total_tickets ev"
  shows "\<exists>db' new.
     serve_all strptime (map (\<lambda>t. (t, SellTicket i)) whens) db =
       (replicate (length whens) (Inr (TicketSold i)), db') \<and>
     get_event db' i = Some (ev\<lparr>tickets_sold := tickets_sold ev + int (length whens)\<rparr>) \<and>
     tickets db' = tickets db @ new \<and> length new = length whens \<and>
     distinct (map tid new) \<and>
     (\<forall>t\<in>set new. event_id t = i \<and> \<not> redeemed t \<and> (\<forall>u\<in>set (tickets db). tid u < tid t))"
  using assms
proof (induction whens arbitrary: db ev)
  case Nil
  then show ?case by simp
next
  case (Cons t ts)
  define db1 where "db1 = snd (serve strptime t (SellTicket i) db)"
  let ?ev1 = "ev\<lparr>tickets_sold := tickets_sold ev + 1\<rparr>"
  let ?t1 = "\<lparr>tid = fresh_id (map tid (tickets db)), event_id = i, redeemed = False, sold_at = t\<rparr>"
  have room: "of_int (tickets_sold ev) < total_tickets ev" using Cons.prems(2) by simp
  have sold: "serve strptime t (SellTicket i) db = (Inr (TicketSold i), db1)"
    by (simp add: db1_def sell_success[OF Cons.prems(1) room])
  have tk: "tickets db1 = tickets db @ [?t1]"
    by (simp add: db1_def sell_success[OF Cons.prems(1) room])
  have ev1: "get_event db1 i = Some ?ev1"
    unfolding db1_def using Cons.prems(1) room by (rule get_event_after_sell)
  have "of_int (tickets_sold ?ev1 + int (length ts)) \<le> total_tickets ?ev1"
    using Cons.prems(2) by simp
  from Cons.IH[OF ev1 this] obtain db' new where
    run: "serve_all strptime (map (\<lambda>t. (t, SellTicket i)) ts) db1 =
            (replicate (length ts) (Inr (TicketSold i)), db')"
    and ev': "get_event db' i = Some (?ev1\<lparr>tickets_sold := tickets_sold ?ev1 + int (length ts)\<rparr>)"
    and tk': "tickets db' = tickets db1 @ new" and len: "length new = length ts"
    and dist: "distinct (map tid new)"
    and new: "\<forall>t\<in>set new. event_id t = i \<and> \<not> redeemed t \<and> (\<forall>u\<in>set (tickets db1). tid u < tid t)"
    by blast
  have fresh: "\<forall>u\<in>set (tickets db). tid u < tid ?t1"
    by (simp add: fresh_id_gt)
  have later: "\<forall>t\<in>set new. tid ?t1 < tid t"
    using new tk by simp
  have "serve_all strptime (map (\<lambda>t. (t, SellTicket i)) (t # ts)) db =
          (replicate (length (t # ts)) (Inr (TicketSold i)), db')"
    using sold run by simp
  moreover have "get_event db' i =
      Some (ev\<lparr>tickets_sold := tickets_sold ev + int (length (t # ts))\<rparr>)"
    using ev' by (simp add: add.assoc)
  moreover have "tickets db' = tickets db @ (?t1 # new)"
    using tk tk' by simp
  moreover have "length (?t1 # new) = length (t # ts)"
    using len by simp
  moreover have "distinct (map tid (?t1 # new))"
    using dist later by auto
  moreover have "\<forall>x\<in>set (?t1 # new). event_id x = i \<and> \<not> redeemed x \<and>
                    (\<forall>u\<in>set (tickets db). tid u < tid x)"
    using new tk fresh by auto
  ultimately show ?case by blast
qed

subsection \<open>The update handler, block by block\<close>



subsection \<open>Referential integrity, date order and ticket keys\<close>

lemma find_append_keeps: "find P xs \<noteq> None \<Longrightarrow> find P (xs @ ys) \<noteq> None"
  by (induction xs) auto

lemma find_replace_keeps:
  "eid e' = i \<Longrightarrow> find (\<lambda>e. eid e = j) xs \<noteq> None \<Longrightarrow>
   find (\<lambda>e. eid e = j) (map (\<lambda>x. if eid x = i then e' else x) xs) \<noteq> None"
  by (auto simp: find_map_replace)

lemma update_event_row:
  assumes "fst (serve strptime now (UpdateEvent i data) db) = Inr r"
  shows "\<exists>ev nm ss es n sd ed.
     get_event db i = Some ev \<and>
     json_name data = Some nm \<and> json_start_date data = Some ss \<and> json_end_date data = Some es \<and>
     json_total_tickets data = Some n \<and> strptime ss = Some sd \<and> strptime es = Some ed \<and>
     dt_date now \<le> dt_date sd \<and> dt_date sd \<le> dt_date ed \<and> of_int (tickets_sold ev) \<le> n \<and>
     1 \<le> n \<and> n \<le> 300 \<and> r = EventUpdated \<and>
     snd (serve strptime now (UpdateEvent i data) db) =
       db\<lparr>events := map (\<lambda>x. if eid x = i
           then ev\<lparr>name := nm, start_date := sd, end_date := ed, total_tickets := n\<rparr> else x)
         (events db)\<rparr>"
  using assms
  by (auto simp: serve_update simp del: in_order.simps dest!: in_order_success[rotated 3]
        split: option.splits if_splits prod.splits)

lemma serve_tickets_have_events:
  assumes inv: "\<forall>t\<in>set (tickets db). get_event db (event_id t) \<noteq> None"
  shows "\<forall>t\<in>set (tickets (snd (serve strptime now req db))).
           get_event (snd (serve strptime now req db)) (event_id t) \<noteq> None"
proof (cases req)
  case (CreateEvent data)
  show ?thesis
  proof (cases "fst (serve strptime now req db)")
    case (Inl err)
    then show ?thesis using inv by (simp add: serve_error_unchanged)
  next
    case (Inr r)
    then obtain i where "serve strptime now (CreateEvent data) db = (Inr (EventCreated i), snd (serve strptime now req db))"
      using CreateEvent
      by (cases "serve strptime now req db")
         (auto simp: serve_create split: option.splits if_splits)
    from create_event_row[OF this] obtain e where
      "snd (serve strptime now req db) = db\<lparr>events := events db @ [e]\<rparr>" by blast
    then show ?thesis using inv
      by (simp add: get_event_def find_append_keeps)
  qed
next
  case (UpdateEvent i data)
  show ?thesis
  proof (cases "fst (serve strptime now req db)")
    case (Inl err)
    then show ?thesis using inv by (simp add: serve_error_unchanged)
  next
    case (Inr r)
    with UpdateEvent have "fst (serve strptime now (UpdateEvent i data) db) = Inr r" by simp
    from update_event_row[OF this] obtain ev' where
      "snd (serve strptime now (UpdateEvent i data) db) =
         db\<lparr>events := map (\<lambda>x. if eid x = i then ev' else x) (events db)\<rparr>"
      and "eid ev' = i"
      by (auto dest: get_event_eid)
    then show ?thesis using inv UpdateEvent
      by (simp add: get_event_def find_replace_keeps)
  qed
next
  case (DeleteEvent i)
  have keep: "\<And>j. j \<noteq> i \<Longrightarrow>
      find (\<lambda>e. eid e = j) (filter (\<lambda>e. eid e \<noteq> i) (events db)) = find (\<lambda>e. eid e = j) (events db)"
    by (rule find_filter_keep) simp
  show ?thesis using inv DeleteEvent
    by (auto simp: serve_delete get_event_def keep split: option.splits if_splits)
next
  case (SellTicket i)
  show ?thesis
  proof (cases "fst (serve strptime now req db)")
    case (Inl err)
    then show ?thesis using inv by (simp add: serve_error_unchanged)
  next
    case (Inr r)
    then obtain ev where ev: "get_event db i = Some ev" and room: "of_int (tickets_sold ev) < total_tickets ev"
      using SellTicket by (auto simp: serve_sell split: option.splits if_splits)
    have k: "eid (ev\<lparr>tickets_sold := tickets_sold ev + 1\<rparr>) = i"
      using get_event_eid[OF ev] by simp
    have found: "find (\<lambda>e. eid e = i) (events db) = Some ev"
      using ev by (simp add: get_event_def)
    have after: "\<And>j. find (\<lambda>e. eid e = j) (events db) \<noteq> None \<Longrightarrow>
        find (\<lambda>e. eid e = j)
          (map (\<lambda>x. if eid x = i then ev\<lparr>tickets_sold := tickets_sold ev + 1\<rparr> else x)
             (events db)) \<noteq> None"
      using k by (rule find_replace_keeps)
    have old: "\<forall>t\<in>set (tickets db). find (\<lambda>e. eid e = event_id t) (events db) \<noteq> None"
      using inv by (simp add: get_event_def)
    have new: "find (\<lambda>e. eid e = i) (events db) \<noteq> None" using found by simp
    show ?thesis
      unfolding SellTicket sell_success[OF ev room] get_event_def
      using old new after by simp
  qed
next
  case (RedeemTicket i)
  show ?thesis using inv RedeemTicket
    by (auto simp: serve_redeem get_event_def dest: get_ticket_mem
          split: option.splits if_splits)
qed

lemma serve_date_order:
  assumes inv: "\<forall>e\<in>set (events db). dt_date (start_date e) \<le> dt_date (end_date e)"
  shows "\<forall>e\<in>set (events (snd (serve strptime now req db))).
           dt_date (start_date e) \<le> dt_date (end_date e)"
proof (cases "fst (serve strptime now req db)")
  case (Inl err)
  then show ?thesis using inv by (simp add: serve_error_unchanged)
next
  case (Inr r)
  show ?thesis
  proof (cases req)
    case (CreateEvent data)
    with Inr obtain i where "serve strptime now (CreateEvent data) db =
        (Inr (EventCreated i), snd (serve strptime now (CreateEvent data) db))"
      by (cases "serve strptime now req db")
         (auto simp: serve_create split: option.splits if_splits)
    from create_event_row[OF this] show ?thesis using inv CreateEvent by auto
  next
    case (UpdateEvent i data)
    with Inr have "fst (serve strptime now (UpdateEvent i data) db) = Inr r" by simp
    from update_event_row[OF this] show ?thesis using inv UpdateEvent by auto
  next
    case (DeleteEvent i)
    then show ?thesis using inv
      by (auto simp: serve_delete split: option.splits if_splits)
  next
    case (SellTicket i)
    then show ?thesis using inv
      by (auto simp: serve_sell dest: get_event_mem split: option.splits if_splits)
  next
    case (RedeemTicket i)
    then show ?thesis using inv
      by (auto simp: serve_redeem split: option.splits if_splits)
  qed
qed

lemma map_tid_replace:
  "tid t' = i \<Longrightarrow> map (tid \<circ> (\<lambda>x. if tid x = i then t' else x)) xs = map tid xs"
  by (induction xs) auto

lemma serve_distinct_tids:
  assumes inv: "distinct (map tid (tickets db))"
  shows "distinct (map tid (tickets (snd (serve strptime now req db))))"
proof (cases "fst (serve strptime now req db)")
  case (Inl err)
  then show ?thesis using inv by (simp add: serve_error_unchanged)
next
  case (Inr r)
  show ?thesis
  proof (cases req)
    case (CreateEvent data)
    with Inr obtain i where "serve strptime now (CreateEvent data) db =
        (Inr (EventCreated i), snd (serve strptime now (CreateEvent data) db))"
      by (cases "serve strptime now req db")
         (auto simp: serve_create split: option.splits if_splits)
    from create_event_row[OF this] show ?thesis using inv CreateEvent by auto
  next
    case (UpdateEvent i data)
    with Inr have "fst (serve strptime now (UpdateEvent i data) db) = Inr r" by simp
    from update_event_row[OF this] show ?thesis using inv UpdateEvent by auto
  next
    case (DeleteEvent i)
    then show ?thesis using inv
      by (auto simp: serve_delete distinct_map_filter split: option.splits if_splits)
  next
    case (SellTicket i)
    have "fresh_id (map tid (tickets db)) \<notin> tid ` set (tickets db)"
      using fresh_id_gt[of "fresh_id (map tid (tickets db))" "map tid (tickets db)"] by auto
    then show ?thesis using inv SellTicket
      by (auto simp: serve_sell split: option.splits if_splits)
  next
    case (RedeemTicket i)
    then show ?thesis using inv
      by (auto simp: serve_redeem map_tid_replace dest!: get_ticket_tid
            split: option.splits if_splits)
  qed
qed

lemma reachable_tickets_have_events:
  "\<forall>t\<in>set (tickets (snd (serve_all strptime reqs empty_db))).
     get_event (snd (serve_all strptime reqs empty_db)) (event_id t) \<noteq> None"
proof (rule serve_all_invariant
    [where P = "\<lambda>db. \<forall>t\<in>set (tickets db). get_event db (event_id t) \<noteq> None"])
  show "\<forall>t\<in>set (tickets empty_db). get_event empty_db (event_id t) \<noteq> None"
    by (simp add: empty_db_def)
next
  fix now req and db :: database
  assume "\<forall>t\<in>set (tickets db). get_event db (event_id t) \<noteq> None"
  then show "\<forall>t\<in>set (tickets (snd (serve strptime now req db))).
           get_event (snd (serve strptime now req db)) (event_id t) \<noteq> None"
    by (rule serve_tickets_have_events)
qed

lemma reachable_date_order:
  "\<forall>e\<in>set (events (snd (serve_all strptime reqs empty_db))).
     dt_date (start_date e) \<le> dt_date (end_date e)"
proof (rule serve_all_invariant
    [where P = "\<lambda>db. \<forall>e\<in>set (events db). dt_date (start_date e) \<le> dt_date (end_date e)"])
  show "\<forall>e\<in>set (events empty_db). dt_date (start_date e) \<le> dt_date (end_date e)"
    by (simp add: empty_db_def)
next
  fix now req and db :: database
  assume "\<forall>e\<in>set (events db). dt_date (start_date e) \<le> dt_date (end_date e)"
  then show "\<forall>e\<in>set (events (snd (serve strptime now req db))).
           dt_date (start_date e) \<le> dt_date (end_date e)"
    by (rule serve_date_order)
qed

lemma reachable_distinct_tids:
  "distinct (map tid (tickets (snd (serve_all strptime reqs empty_db))))"
proof (rule serve_all_invariant [where P = "\<lambda>db. distinct (map tid (tickets db))"])
  show "distinct (map tid (tickets empty_db))" by (simp add: empty_db_def)
next
  fix now req and db :: database
  assume "distinct (map tid (tickets db))"
  then show "distinct (map tid (tickets (snd (serve strptime now req db))))"
    by (rule serve_distinct_tids)
qed

subsection \<open>Tickets after a request\<close>

lemma find_ticket_replace:
  "tid t' = i \<Longrightarrow>
   find (\<lambda>x. tid x = j) (map (\<lambda>x. if tid x = i then t' else x) xs) =
     (if j = i then map_option (\<lambda>_. t') (find (\<lambda>x. tid x = i) xs)
      else find (\<lambda>x. tid x = j) xs)"
  by (induction xs) auto

lemma redeem_success:
  assumes "get_ticket db k = Some t" "\<not> redeemed t" "get_event db (event_id t) = Some ev"
    and "dt_date (start_date ev) \<le> dt_date now" "dt_date now \<le> dt_date (end_date ev)"
  shows "serve strptime now (RedeemTicket k) db =
     (Inr TicketRedeemed,
      db\<lparr>tickets := map (\<lambda>x. if tid x = k then t\<lparr>redeemed := True\<rparr> else x) (tickets db)\<rparr>)"
    and "get_ticket (snd (serve strptime now (RedeemTicket k) db)) k = Some (t\<lparr>redeemed := True\<rparr>)"
proof -
  show a: "serve strptime now (RedeemTicket k) db =
     (Inr TicketRedeemed,
      db\<lparr>tickets := map (\<lambda>x. if tid x = k then t\<lparr>redeemed := True\<rparr> else x) (tickets db)\<rparr>)"
    using assms by (simp add: serve_redeem)
  have "tid (t\<lparr>redeemed := True\<rparr>) = k" using get_ticket_tid[OF assms(1)] by simp
  moreover have "find (\<lambda>x. tid x = k) (tickets db) = Some t"
    using assms(1) by (simp add: get_ticket_def)
  ultimately show "get_ticket (snd (serve strptime now (RedeemTicket k) db)) k
      = Some (t\<lparr>redeemed := True\<rparr>)"
    unfolding a by (simp add: get_ticket_def find_ticket_replace)
qed

lemma redeem_replied_ok:
  assumes "fst (serve strptime now (RedeemTicket k) db) = Inr r"
  shows "\<exists>t ev. get_ticket db k = Some t \<and> \<not> redeemed t \<and>
           get_event db (event_id t) = Some ev \<and>
           dt_date (start_date ev) \<le> dt_date now \<and> dt_date now \<le> dt_date (end_date ev)"
  using assms by (auto simp: serve_redeem split: option.splits if_splits)

lemma same_key_same_ticket:
  assumes "distinct (map tid xs)" "x \<in> set xs" "y \<in> set xs" "tid x = tid y"
  shows "x = y"
  using assms by (meson distinct_map inj_onD)

lemma ticket_kept_by_request:
  assumes t: "get_ticket db k = Some t"
    and keys: "distinct (map tid (tickets db))"
    and t': "get_ticket (snd (serve strptime now req db)) k = Some t'"
  shows "t' = t \<or> t' = t\<lparr>redeemed := True\<rparr>"
proof (cases "fst (serve strptime now req db)")
  case (Inl err)
  then have "snd (serve strptime now req db) = db" by (rule serve_error_unchanged)
  with t t' show ?thesis by simp
next
  case (Inr r)
  have found: "find (\<lambda>x. tid x = k) (tickets db) = Some t"
    using t by (simp add: get_ticket_def)
  show ?thesis
  proof (cases req)
    case (CreateEvent data)
    with Inr obtain i where "serve strptime now (CreateEvent data) db =
        (Inr (EventCreated i), snd (serve strptime now (CreateEvent data) db))"
      by (cases "serve strptime now req db")
         (auto simp: serve_create split: option.splits if_splits)
    from create_event_row[OF this] have "tickets (snd (serve strptime now req db)) = tickets db"
      using CreateEvent by auto
    with t t' show ?thesis by (simp add: get_ticket_def)
  next
    case (UpdateEvent i data)
    with Inr have "fst (serve strptime now (UpdateEvent i data) db) = Inr r" by simp
    from update_event_row[OF this] have "tickets (snd (serve strptime now req db)) = tickets db"
      using UpdateEvent by auto
    with t t' show ?thesis by (simp add: get_ticket_def)
  next
    case (DeleteEvent i)
    with t' have "t' \<in> set (tickets db)" and "tid t' = k"
      by (auto simp: serve_delete get_ticket_def find_Some_iff split: option.splits if_splits
            dest: nth_mem)
    moreover have "t \<in> set (tickets db)" and "tid t = k"
      using t by (auto dest: get_ticket_mem get_ticket_tid)
    ultimately have "t' = t" using keys by (auto intro: same_key_same_ticket)
    then show ?thesis by simp
  next
    case (SellTicket i)
    with t' found show ?thesis
      by (auto simp: serve_sell get_ticket_def find_append_cases split: option.splits if_splits)
  next
    case (RedeemTicket j)
    with Inr have "fst (serve strptime now (RedeemTicket j) db) = Inr r" by simp
    from redeem_replied_ok[OF this] obtain u ev where
      u: "get_ticket db j = Some u" "\<not> redeemed u" "get_event db (event_id u) = Some ev"
        "dt_date (start_date ev) \<le> dt_date now" "dt_date now \<le> dt_date (end_date ev)"
      by blast
    have k: "tid (u\<lparr>redeemed := True\<rparr>) = j" using get_ticket_tid[OF u(1)] by simp
    show ?thesis
    proof (cases "j = k")
      case True
      with u(1) t have "u = t" by simp
      with redeem_success(2)[OF u, of strptime] True t' RedeemTicket show ?thesis by simp
    next
      case False
      with t' found k show ?thesis
        unfolding RedeemTicket redeem_success(1)[OF u]
        by (simp add: get_ticket_def find_ticket_replace)
    qed
  qed
qed

subsection \<open>A ticket sold after the end of its event\<close>



subsection \<open>Capacity when the totals are whole numbers\<close>

lemma next_ticket_fits:
  assumes "x \<in> \<int>" and "of_int k < (x::rat)"
  shows "of_int (k + 1) \<le> x"
proof -
  from assms(1) obtain m where m: "x = of_int m" by (rule Ints_cases)
  with assms(2) have "k < m" by simp
  then have "k + 1 \<le> m" by simp
  then show ?thesis unfolding m by (simp only: of_int_le_iff)
qed

lemma serve_all_invariant_where:
  assumes step: "\<And>now req db. Q req \<Longrightarrow> P db \<Longrightarrow> P (snd (serve strptime now req db))"
    and init: "P db"
    and all: "\<forall>(now, req)\<in>set reqs. Q req"
  shows "P (snd (serve_all strptime reqs db))"
  using init all
proof (induction reqs arbitrary: db)
  case Nil
  then show ?case by simp
next
  case (Cons a reqs)
  obtain now req where a: "a = (now, req)" by (cases a)
  have "Q req" using Cons.prems(2) by (simp add: a)
  then have "P (snd (serve strptime now req db))" using Cons.prems(1) by (rule step)
  moreover have "\<forall>(now, req)\<in>set reqs. Q req" using Cons.prems(2) by simp
  ultimately have "P (snd (serve_all strptime reqs (snd (serve strptime now req db))))"
    by (rule Cons.IH)
  then show ?case by (auto simp: a split: prod.splits)
qed

lemma serve_capacity_whole:
  assumes whole: "\<forall>i data n. req = CreateEvent data \<or> req = UpdateEvent i data \<longrightarrow>
                    json_total_tickets data = Some n \<longrightarrow> n \<in> \<int>"
    and inv: "\<forall>e\<in>set (events db).
                total_tickets e \<in> \<int> \<and> of_int (tickets_sold e) \<le> total_tickets e"
  shows "\<forall>e\<in>set (events (snd (serve strptime now req db))).
           total_tickets e \<in> \<int> \<and> of_int (tickets_sold e) \<le> total_tickets e"
proof (cases "fst (serve strptime now req db)")
  case (Inl err)
  then show ?thesis using inv by (simp add: serve_error_unchanged)
next
  case (Inr r)
  show ?thesis
  proof (cases req)
    case (CreateEvent data)
    with Inr obtain i where "serve strptime now (CreateEvent data) db =
        (Inr (EventCreated i), snd (serve strptime now (CreateEvent data) db))"
      by (cases "serve strptime now req db")
         (auto simp: serve_create split: option.splits if_splits)
    from create_event_row[OF this] show ?thesis using inv whole CreateEvent by auto
  next
    case (UpdateEvent i data)
    with Inr have "fst (serve strptime now (UpdateEvent i data) db) = Inr r" by simp
    from update_event_row[OF this] show ?thesis using inv whole UpdateEvent by auto
  next
    case (DeleteEvent i)
    then show ?thesis using inv
      by (auto simp: serve_delete split: option.splits if_splits)
  next
    case (SellTicket i)
    show ?thesis
    proof (cases "get_event db i")
      case None
      then show ?thesis using inv SellTicket by (simp add: serve_sell)
    next
      case (Some ev)
      then have "ev \<in> set (events db)" by (rule get_event_mem)
      with inv have z: "total_tickets ev \<in> \<int>" by blast
      show ?thesis
      proof (cases "total_tickets ev \<le> of_int (tickets_sold ev)")
        case True
        then show ?thesis using inv SellTicket Some by (simp add: serve_sell)
      next
        case False
        then have "of_int (tickets_sold ev) < total_tickets ev" by simp
        with z have "of_int (tickets_sold ev + 1) \<le> total_tickets ev"
          by (rule next_ticket_fits)
        then show ?thesis using inv SellTicket Some False z
          by (auto simp: serve_sell)
      qed
    qed
  next
    case (RedeemTicket i)
    then show ?thesis using inv
      by (auto simp: serve_redeem split: option.splits if_splits)
  qed
qed

lemma reachable_capacity_whole:
  assumes "\<forall>(now, req)\<in>set reqs. \<forall>i data n.
             req = CreateEvent data \<or> req = UpdateEvent i data \<longrightarrow>
             json_total_tickets data = Some n \<longrightarrow> n \<in> \<int>"
  shows "\<forall>e\<in>set (events (snd (serve_all strptime reqs empty_db))).
           of_int (tickets_sold e) \<le> total_tickets e"
proof -
  have "\<forall>e\<in>set (events (snd (serve_all strptime reqs empty_db))).
          total_tickets e \<in> \<int> \<and> of_int (tickets_sold e) \<le> total_tickets e"
  proof (rule serve_all_invariant_where
      [where Q = "\<lambda>req. \<forall>i data n. req = CreateEvent data \<or> req = UpdateEvent i data \<longrightarrow>
                    json_total_tickets data = Some n \<longrightarrow> n \<in> \<int>"
         and P = "\<lambda>db. \<forall>e\<in>set (events db).
                    total_tickets e \<in> \<int> \<and> of_int (tickets_sold e) \<le> total_tickets e"])
    show "\<forall>e\<in>set (events empty_db).
            total_tickets e \<in> \<int> \<and> of_int (tickets_sold e) \<le> total_tickets e"
      by (simp add: empty_db_def)
  next
    show "\<forall>(now, req)\<in>set reqs. \<forall>i data n.
             req = CreateEvent data \<or> req = UpdateEvent i data \<longrightarrow>
             json_total_tickets data = Some n \<longrightarrow> n \<in> \<int>"
      by (rule assms)
  next
    fix now req and db :: database
    assume "\<forall>i data n. req = CreateEvent data \<or> req = UpdateEvent i data \<longrightarrow>
              json_total_tickets data = Some n \<longrightarrow> n \<in> \<int>"
      and "\<forall>e\<in>set (events db).
              total_tickets e \<in> \<int> \<and> of_int (tickets_sold e) \<le> total_tickets e"
    then show "\<forall>e\<in>set (events (snd (serve strptime now req db))).
           total_tickets e \<in> \<int> \<and> of_int (tickets_sold e) \<le> total_tickets e"
      by (rule serve_capacity_whole)
  qed
  then show ?thesis by blast
qed

subsection \<open>What create stores and what it refuses\<close>

text \<open>
  When create succeeds, the stored tables gain exactly one event, under the key of the
  reply, with \<open>tickets_sold = 0\<close>, \<open>1 \<le> total_tickets \<le> 300\<close>, an end day not before its
  start day and a start day not before the day of the request. A body with
  \<open>total_tickets = 0\<close> is refused with \<open>MissingFields\<close>. A body whose dates parse and that
  breaks one of the bounds is refused with one of the four 400 replies of the handler, and
  a body with a total outside 1..300 is refused in any case; a refused create stores
  nothing. A body with a date that does not parse ends in \<open>ParseError\<close>, whatever else it
  holds.
\<close>

lemma create_event_bounds:
  "(serve strptime now (CreateEvent data) db = (Inr (EventCreated i), db') \<longrightarrow>
      (\<exists>ev. get_event db' i = Some ev \<and> events db' = events db @ [ev] \<and>
            tickets db' = tickets db \<and> tickets_sold ev = 0 \<and>
            1 \<le> total_tickets ev \<and> total_tickets ev \<le> 300 \<and>
            dt_date (start_date ev) \<le> dt_date (end_date ev) \<and>
            dt_date now \<le> dt_date (start_date ev))) \<and>
   (json_total_tickets data = Some 0 \<longrightarrow>
      serve strptime now (CreateEvent data) db = (Inl MissingFields, db)) \<and>
   (json_start_date data = Some ss \<and> strptime ss = Some sd \<and>
    json_end_date data = Some es \<and> strptime es = Some ed \<and>
    json_total_tickets data = Some n \<and>
    (dt_date sd < dt_date now \<or> dt_date ed < dt_date sd \<or> n < 1 \<or> 300 < n) \<longrightarrow>
      snd (serve strptime now (CreateEvent data) db) = db \<and>
      fst (serve strptime now (CreateEvent data) db)
        \<in> {Inl MissingFields, Inl StartInPast, Inl EndBeforeStart, Inl TicketsOutOfRange}) \<and>
   (json_total_tickets data = Some n \<and> (n < 1 \<or> 300 < n) \<longrightarrow>
      (\<exists>err. serve strptime now (CreateEvent data) db = (Inl err, db)))"
proof (intro conjI impI)
  assume "serve strptime now (CreateEvent data) db = (Inr (EventCreated i), db')"
  from create_event_row[OF this]
  show "\<exists>ev. get_event db' i = Some ev \<and> events db' = events db @ [ev] \<and>
            tickets db' = tickets db \<and> tickets_sold ev = 0 \<and>
            1 \<le> total_tickets ev \<and> total_tickets ev \<le> 300 \<and>
            dt_date (start_date ev) \<le> dt_date (end_date ev) \<and>
            dt_date now \<le> dt_date (start_date ev)"
    by auto
next
  assume "json_total_tickets data = Some 0"
  then show "serve strptime now (CreateEvent data) db = (Inl MissingFields, db)"
    by (simp add: serve_create split: option.splits)
next
  assume h: "json_start_date data = Some ss \<and> strptime ss = Some sd \<and>
    json_end_date data = Some es \<and> strptime es = Some ed \<and>
    json_total_tickets data = Some n \<and>
    (dt_date sd < dt_date now \<or> dt_date ed < dt_date sd \<or> n < 1 \<or> 300 < n)"
  then show "snd (serve strptime now (CreateEvent data) db) = db"
    by (auto simp: serve_create split: option.splits)
  from h show "fst (serve strptime now (CreateEvent data) db)
        \<in> {Inl MissingFields, Inl StartInPast, Inl EndBeforeStart, Inl TicketsOutOfRange}"
    by (auto simp: serve_create split: option.splits)
next
  assume h: "json_total_tickets data = Some n \<and> (n < 1 \<or> 300 < n)"
  then show "\<exists>err. serve strptime now (CreateEvent data) db = (Inl err, db)"
    by (auto simp: serve_create split: option.splits)
qed

lemma create_event_unparsable:
  assumes "json_name data = Some nm" "json_start_date data = Some ss"
    and "json_end_date data = Some es" "json_total_tickets data = Some n"
    and "nm \<noteq> []" "ss \<noteq> []" "es \<noteq> []" "n \<noteq> 0"
    and "strptime ss = None \<or> strptime es = None"
  shows "serve strptime now (CreateEvent data) db = (Inl ParseError, db)"
  using assms by (auto simp: serve_create split: option.splits)

section \<open>The claims\<close>

text \<open>
  C1. The invariant \<open>tickets_sold \<le> total_tickets\<close> does not hold in every reachable
  state. Create takes the total 2.5: it is truthy and \<^verbatim>\<open>1 <= 2.5 <= 300\<close> holds, so the
  event is stored with it. The guard of sell, \<^verbatim>\<open>tickets_sold >= total_tickets\<close>, is false
  at 0, 1 and 2 tickets sold, so three sales succeed and the stored event has
  \<open>tickets_sold = 3\<close> with \<open>total_tickets = 5/2\<close>. (When every create and update body
  carries a whole total the invariant does hold: \<open>reachable_capacity_whole\<close>.)
\<close>

theorem oversold_with_fractional_total:
  "serve_all calendar
     [(noon 741368, CreateEvent (concert\<lparr>json_total_tickets := Some (5 / 2)\<rparr>)),
      (noon 741369, SellTicket 1), (noon 741369, SellTicket 1), (noon 741369, SellTicket 1)]
     empty_db =
   ([Inr (EventCreated 1), Inr (TicketSold 1), Inr (TicketSold 1), Inr (TicketSold 1)],
    \<lparr>events = [concert_event\<lparr>total_tickets := 5 / 2, tickets_sold := 3\<rparr>],
     tickets = [first_ticket, second_ticket,
                \<lparr>tid = 3, event_id = 1, redeemed = False, sold_at = noon 741369\<rparr>]\<rparr>) \<and>
   total_tickets (concert_event\<lparr>total_tickets := 5 / 2, tickets_sold := 3\<rparr>)
     < of_int (tickets_sold (concert_event\<lparr>total_tickets := 5 / 2, tickets_sold := 3\<rparr>))"
  by (simp add: scenario_defs handler_defs)

text \<open>
  C2. A request that is answered with an error leaves the stored tables as they were: every
  error return of every handler comes before its \<^verbatim>\<open>db.session.commit()\<close>. In particular
  an update that fails a field check (a date that does not parse, a start date in the past,
  an end date before the start date, a total below the tickets sold or outside 1..300)
  changes no field of the stored event.
\<close>

theorem failed_request_keeps_state:
  "fst (serve strptime now req db) = Inl err \<Longrightarrow> snd (serve strptime now req db) = db"
  by (rule serve_error_unchanged)

theorem failed_request_keeps_state_witness:
  "fst (serve calendar (noon 741369)
          (UpdateEvent 1 (concert\<lparr>json_name := Some ''Renamed'', json_total_tickets := Some 1\<rparr>))
          sold_out_db) = Inl TicketsBelowSold \<and>
   snd (serve calendar (noon 741369)
          (UpdateEvent 1 (concert\<lparr>json_name := Some ''Renamed'', json_total_tickets := Some 1\<rparr>))
          sold_out_db) = sold_out_db"
proof -
  have h: "fst (serve calendar (noon 741369)
          (UpdateEvent 1 (concert\<lparr>json_name := Some ''Renamed'', json_total_tickets := Some 1\<rparr>))
          sold_out_db) = Inl TicketsBelowSold"
    by (simp add: scenario_defs handler_defs)
  show ?thesis using h failed_request_keeps_state [OF h] by simp
qed

text \<open>
  C3. A sale that succeeds (the event exists and has tickets left) answers with the key of
  the event it was asked for, which is the \<^verbatim>\<open>event_id\<close> of the new ticket, whatever key
  the new ticket itself received.
\<close>

theorem sell_ticket_replies_event_id:
  assumes "get_event db i = Some ev" and "of_int (tickets_sold ev) < total_tickets ev"
  shows "fst (serve strptime now (SellTicket i) db) = Inr (TicketSold i) \<and>
         (\<exists>t. tickets (snd (serve strptime now (SellTicket i) db)) = tickets db @ [t] \<and>
              event_id t = i \<and> tid t = fresh_id (map tid (tickets db)))"
  by (simp add: sell_success[OF assms])

theorem sell_ticket_replies_event_id_witness:
  "get_event \<lparr>events = [concert_event, concert_event\<lparr>eid := 2\<rparr>], tickets = []\<rparr> 2
     = Some (concert_event\<lparr>eid := 2\<rparr>) \<and>
   of_int (tickets_sold (concert_event\<lparr>eid := 2\<rparr>)) < total_tickets (concert_event\<lparr>eid := 2\<rparr>) \<and>
   fst (serve calendar (noon 741369) (SellTicket 2)
          \<lparr>events = [concert_event, concert_event\<lparr>eid := 2\<rparr>], tickets = []\<rparr>) = Inr (TicketSold 2) \<and>
   map tid (tickets (snd (serve calendar (noon 741369) (SellTicket 2)
          \<lparr>events = [concert_event, concert_event\<lparr>eid := 2\<rparr>], tickets = []\<rparr>))) = [1]"
proof -
  let ?db = "\<lparr>events = [concert_event, concert_event\<lparr>eid := 2\<rparr>], tickets = []\<rparr>"
  have a: "get_event ?db 2 = Some (concert_event\<lparr>eid := 2\<rparr>)"
    by (simp add: scenario_defs get_event_def)
  have b: "of_int (tickets_sold (concert_event\<lparr>eid := 2\<rparr>)) < total_tickets (concert_event\<lparr>eid := 2\<rparr>)"
    by (simp add: scenario_defs)
  from sell_ticket_replies_event_id [OF a b, of calendar "noon 741369"]
  have "fst (serve calendar (noon 741369) (SellTicket 2) ?db) = Inr (TicketSold 2)"
    and "map tid (tickets (snd (serve calendar (noon 741369) (SellTicket 2) ?db))) = [1]"
    by (auto simp: fresh_id_def)
  with a b show ?thesis by simp
qed

text \<open>
  C4. After an event was created with \<open>total_tickets = N\<close>, \<open>N\<close> sales in a row (at any
  times) all succeed; together they add \<open>N\<close> new tickets with distinct fresh keys, each
  unredeemed and linked to the event, and bring \<open>tickets_sold\<close> to \<open>N\<close>; the next sale
  is refused with \<open>NoMoreTickets\<close> and changes nothing. For an existing event, a sale is
  refused with \<open>NoMoreTickets\<close> exactly when \<open>tickets_sold \<ge> total_tickets\<close>; otherwise it
  adds one unredeemed ticket of the event and adds 1 to \<open>tickets_sold\<close>.
\<close>

theorem sell_until_sold_out:
  assumes "serve strptime now (CreateEvent data) db0 = (Inr (EventCreated i), db)"
    and "json_total_tickets data = Some (of_nat N)"
    and "length whens = N"
  shows "(\<exists>db' new.
       serve_all strptime (map (\<lambda>t. (t, SellTicket i)) whens) db =
         (replicate N (Inr (TicketSold i)), db') \<and>
       serve strptime later (SellTicket i) db' = (Inl NoMoreTickets, db') \<and>
       map_option tickets_sold (get_event db' i) = Some (int N) \<and>
       tickets db' = tickets db @ new \<and> length new = N \<and> distinct (map tid new) \<and>
       (\<forall>t\<in>set new. event_id t = i \<and> \<not> redeemed t \<and> tid t \<notin> tid ` set (tickets db))) \<and>
     (\<forall>db2 j ev2 t.
       get_event db2 j = Some ev2 \<longrightarrow>
       (fst (serve strptime t (SellTicket j) db2) = Inl NoMoreTickets
          \<longleftrightarrow> total_tickets ev2 \<le> of_int (tickets_sold ev2)) \<and>
       (total_tickets ev2 \<le> of_int (tickets_sold ev2) \<longrightarrow> snd (serve strptime t (SellTicket j) db2) = db2) \<and>
       (of_int (tickets_sold ev2) < total_tickets ev2 \<longrightarrow>
          fst (serve strptime t (SellTicket j) db2) = Inr (TicketSold j) \<and>
          get_event (snd (serve strptime t (SellTicket j) db2)) j =
            Some (ev2\<lparr>tickets_sold := tickets_sold ev2 + 1\<rparr>) \<and>
          tickets (snd (serve strptime t (SellTicket j) db2)) =
            tickets db2 @ [\<lparr>tid = fresh_id (map tid (tickets db2)), event_id = j,
                            redeemed = False, sold_at = t\<rparr>] \<and>
          fresh_id (map tid (tickets db2)) \<notin> tid ` set (tickets db2)))"
proof (rule conjI)
  from create_event_row[OF assms(1)] assms(2) obtain ev where
    ev: "get_event db i = Some ev" and s0: "tickets_sold ev = 0" and tot: "total_tickets ev = of_nat N"
    by auto
  have "of_int (tickets_sold ev + int (length whens)) \<le> total_tickets ev"
    using s0 tot assms(3) by simp
  from sell_run[OF ev this, of strptime] obtain db' new where
    run: "serve_all strptime (map (\<lambda>t. (t, SellTicket i)) whens) db =
            (replicate (length whens) (Inr (TicketSold i)), db')"
    and ev': "get_event db' i = Some (ev\<lparr>tickets_sold := tickets_sold ev + int (length whens)\<rparr>)"
    and tk: "tickets db' = tickets db @ new" and len: "length new = length whens"
    and dist: "distinct (map tid new)"
    and new: "\<forall>t\<in>set new. event_id t = i \<and> \<not> redeemed t \<and> (\<forall>u\<in>set (tickets db). tid u < tid t)"
    by blast
  have full: "total_tickets (ev\<lparr>tickets_sold := tickets_sold ev + int (length whens)\<rparr>)
      \<le> of_int (tickets_sold (ev\<lparr>tickets_sold := tickets_sold ev + int (length whens)\<rparr>))"
    using s0 tot assms(3) by simp
  have refused: "serve strptime later (SellTicket i) db' = (Inl NoMoreTickets, db')"
    using ev' full by (rule sell_refused)
  have count: "map_option tickets_sold (get_event db' i) = Some (int N)"
    using ev' s0 assms(3) by simp
  have unseen: "\<forall>t\<in>set new. event_id t = i \<and> \<not> redeemed t \<and> tid t \<notin> tid ` set (tickets db)"
    using new by fastforce
  show "\<exists>db' new.
       serve_all strptime (map (\<lambda>t. (t, SellTicket i)) whens) db =
         (replicate N (Inr (TicketSold i)), db') \<and>
       serve strptime later (SellTicket i) db' = (Inl NoMoreTickets, db') \<and>
       map_option tickets_sold (get_event db' i) = Some (int N) \<and>
       tickets db' = tickets db @ new \<and> length new = N \<and> distinct (map tid new) \<and>
       (\<forall>t\<in>set new. event_id t = i \<and> \<not> redeemed t \<and> tid t \<notin> tid ` set (tickets db))"
    using run refused count tk len dist unseen assms(3) by blast
next
  show "\<forall>db2 j ev2 t.
       get_event db2 j = Some ev2 \<longrightarrow>
       (fst (serve strptime t (SellTicket j) db2) = Inl NoMoreTickets
          \<longleftrightarrow> total_tickets ev2 \<le> of_int (tickets_sold ev2)) \<and>
       (total_tickets ev2 \<le> of_int (tickets_sold ev2) \<longrightarrow> snd (serve strptime t (SellTicket j) db2) = db2) \<and>
       (of_int (tickets_sold ev2) < total_tickets ev2 \<longrightarrow>
          fst (serve strptime t (SellTicket j) db2) = Inr (TicketSold j) \<and>
          get_event (snd (serve strptime t (SellTicket j) db2)) j =
            Some (ev2\<lparr>tickets_sold := tickets_sold ev2 + 1\<rparr>) \<and>
          tickets (snd (serve strptime t (SellTicket j) db2)) =
            tickets db2 @ [\<lparr>tid = fresh_id (map tid (tickets db2)), event_id = j,
                            redeemed = False, sold_at = t\<rparr>] \<and>
          fresh_id (map tid (tickets db2)) \<notin> tid ` set (tickets db2))"
  proof (intro allI impI)
    fix db2 :: database and j and ev2 :: event and t
    assume e: "get_event db2 j = Some ev2"
    have a: "fst (serve strptime t (SellTicket j) db2) = Inl NoMoreTickets
          \<longleftrightarrow> total_tickets ev2 \<le> of_int (tickets_sold ev2)"
      using e by (simp add: serve_sell)
    have b: "total_tickets ev2 \<le> of_int (tickets_sold ev2) \<longrightarrow> snd (serve strptime t (SellTicket j) db2) = db2"
      using e by (simp add: serve_sell)
    have fresh: "fresh_id (map tid (tickets db2)) \<notin> tid ` set (tickets db2)"
    proof
      assume "fresh_id (map tid (tickets db2)) \<in> tid ` set (tickets db2)"
      then have "fresh_id (map tid (tickets db2)) \<in> set (map tid (tickets db2))" by simp
      then have "fresh_id (map tid (tickets db2)) < fresh_id (map tid (tickets db2))"
        by (rule fresh_id_gt)
      then show False by simp
    qed
    have c: "of_int (tickets_sold ev2) < total_tickets ev2 \<longrightarrow>
          fst (serve strptime t (SellTicket j) db2) = Inr (TicketSold j) \<and>
          get_event (snd (serve strptime t (SellTicket j) db2)) j =
            Some (ev2\<lparr>tickets_sold := tickets_sold ev2 + 1\<rparr>) \<and>
          tickets (snd (serve strptime t (SellTicket j) db2)) =
            tickets db2 @ [\<lparr>tid = fresh_id (map tid (tickets db2)), event_id = j,
                            redeemed = False, sold_at = t\<rparr>] \<and>
          fresh_id (map tid (tickets db2)) \<notin> tid ` set (tickets db2)"
    proof
      assume room: "of_int (tickets_sold ev2) < total_tickets ev2"
      show "fst (serve strptime t (SellTicket j) db2) = Inr (TicketSold j) \<and>
          get_event (snd (serve strptime t (SellTicket j) db2)) j =
            Some (ev2\<lparr>tickets_sold := tickets_sold ev2 + 1\<rparr>) \<and>
          tickets (snd (serve strptime t (SellTicket j) db2)) =
            tickets db2 @ [\<lparr>tid = fresh_id (map tid (tickets db2)), event_id = j,
                            redeemed = False, sold_at = t\<rparr>] \<and>
          fresh_id (map tid (tickets db2)) \<notin> tid ` set (tickets db2)"
        using get_event_after_sell[OF e room, of strptime t] fresh
        by (simp add: sell_success[OF e room])
    qed
    from a b c show "(fst (serve strptime t (SellTicket j) db2) = Inl NoMoreTickets
          \<longleftrightarrow> total_tickets ev2 \<le> of_int (tickets_sold ev2)) \<and>
       (total_tickets ev2 \<le> of_int (tickets_sold ev2) \<longrightarrow> snd (serve strptime t (SellTicket j) db2) = db2) \<and>
       (of_int (tickets_sold ev2) < total_tickets ev2 \<longrightarrow>
          fst (serve strptime t (SellTicket j) db2) = Inr (TicketSold j) \<and>
          get_event (snd (serve strptime t (SellTicket j) db2)) j =
            Some (ev2\<lparr>tickets_sold := tickets_sold ev2 + 1\<rparr>) \<and>
          tickets (snd (serve strptime t (SellTicket j) db2)) =
            tickets db2 @ [\<lparr>tid = fresh_id (map tid (tickets db2)), event_id = j,
                            redeemed = False, sold_at = t\<rparr>] \<and>
          fresh_id (map tid (tickets db2)) \<notin> tid ` set (tickets db2))"
      by blast
  qed
qed

theorem sell_until_sold_out_witness:
  "serve calendar (noon 741368) (CreateEvent concert) empty_db = (Inr (EventCreated 1), concert_db) \<and>
   json_total_tickets concert = Some (of_nat 2) \<and>
   length [noon 741369, noon 741369] = 2 \<and>
   serve_all calendar (map (\<lambda>t. (t, SellTicket 1)) [noon 741369, noon 741369]) concert_db =
     ([Inr (TicketSold 1), Inr (TicketSold 1)], sold_out_db) \<and>
   serve calendar (noon 741370) (SellTicket 1) sold_out_db = (Inl NoMoreTickets, sold_out_db)"
proof -
  have h1: "serve calendar (noon 741368) (CreateEvent concert) empty_db
              = (Inr (EventCreated 1), concert_db)"
    by (simp add: scenario_defs handler_defs)
  have h2: "json_total_tickets concert = Some (of_nat 2)"
    by (simp add: concert_def)
  have h3: "length [noon 741369, noon 741369] = 2" by simp
  have run: "serve_all calendar (map (\<lambda>t. (t, SellTicket 1)) [noon 741369, noon 741369]) concert_db =
     ([Inr (TicketSold 1), Inr (TicketSold 1)], sold_out_db)"
    by (simp add: scenario_defs handler_defs)
  from sell_until_sold_out [OF h1 h2 h3, of "noon 741370"] run
  have "serve calendar (noon 741370) (SellTicket 1) sold_out_db = (Inl NoMoreTickets, sold_out_db)"
    by auto
  with h1 h2 h3 run show ?thesis by blast
qed



text \<open>
  C6. For a stored ticket that is not yet redeemed, redeem succeeds exactly when the day of
  the request lies between the day of the event's start date and the day of its end date,
  both included; only the days are compared, the time of day plays no part. On every day
  of the window the reply is \<open>TicketRedeemed\<close> and the stored tables change in exactly one
  place: the ticket is now redeemed. Outside the window the reply is \<open>OutOfWindow\<close> and
  nothing changes. In particular the ticket is redeemed on the start day and on the end
  day. In every state reached from the empty database the event of a stored ticket is
  stored too, with its start date not after its end date.
\<close>

theorem redeem_ticket_window:
  assumes "get_ticket db k = Some t" and "\<not> redeemed t"
  shows "(\<forall>ev. get_event db (event_id t) = Some ev \<longrightarrow>
            (fst (serve strptime now (RedeemTicket k) db) = Inr TicketRedeemed \<longleftrightarrow>
               dt_date (start_date ev) \<le> dt_date now \<and> dt_date now \<le> dt_date (end_date ev)) \<and>
            (dt_date (start_date ev) \<le> dt_date now \<and> dt_date now \<le> dt_date (end_date ev) \<longrightarrow>
               serve strptime now (RedeemTicket k) db =
                 (Inr TicketRedeemed,
                  db\<lparr>tickets := map (\<lambda>x. if tid x = k then t\<lparr>redeemed := True\<rparr> else x)
                                    (tickets db)\<rparr>) \<and>
               get_ticket (snd (serve strptime now (RedeemTicket k) db)) k
                 = Some (t\<lparr>redeemed := True\<rparr>) \<and>
               events (snd (serve strptime now (RedeemTicket k) db)) = events db) \<and>
            (dt_date now < dt_date (start_date ev) \<or> dt_date (end_date ev) < dt_date now \<longrightarrow>
               serve strptime now (RedeemTicket k) db = (Inl OutOfWindow, db)) \<and>
            (dt_date (start_date ev) \<le> dt_date (end_date ev) \<and>
             (dt_date now = dt_date (start_date ev) \<or> dt_date now = dt_date (end_date ev)) \<longrightarrow>
               fst (serve strptime now (RedeemTicket k) db) = Inr TicketRedeemed \<and>
               get_ticket (snd (serve strptime now (RedeemTicket k) db)) k
                 = Some (t\<lparr>redeemed := True\<rparr>))) \<and>
         (db = snd (serve_all strptime reqs empty_db) \<longrightarrow>
            (\<exists>ev. get_event db (event_id t) = Some ev \<and>
                  dt_date (start_date ev) \<le> dt_date (end_date ev)))"
proof (intro conjI allI impI)
  fix ev :: event
  assume ev: "get_event db (event_id t) = Some ev"
  show "fst (serve strptime now (RedeemTicket k) db) = Inr TicketRedeemed \<longleftrightarrow>
          dt_date (start_date ev) \<le> dt_date now \<and> dt_date now \<le> dt_date (end_date ev)"
    using assms ev by (simp add: serve_redeem)
  show "serve strptime now (RedeemTicket k) db = (Inl OutOfWindow, db)"
    if "dt_date now < dt_date (start_date ev) \<or> dt_date (end_date ev) < dt_date now"
    using assms ev that by (auto simp: serve_redeem)
  {
    assume inside: "dt_date (start_date ev) \<le> dt_date now \<and> dt_date now \<le> dt_date (end_date ev)"
    then have lo: "dt_date (start_date ev) \<le> dt_date now"
      and hi: "dt_date now \<le> dt_date (end_date ev)" by auto
    show whole: "serve strptime now (RedeemTicket k) db =
         (Inr TicketRedeemed,
          db\<lparr>tickets := map (\<lambda>x. if tid x = k then t\<lparr>redeemed := True\<rparr> else x) (tickets db)\<rparr>)"
      by (rule redeem_success(1)[OF assms ev lo hi])
    show "get_ticket (snd (serve strptime now (RedeemTicket k) db)) k = Some (t\<lparr>redeemed := True\<rparr>)"
      by (rule redeem_success(2)[OF assms ev lo hi])
    show "events (snd (serve strptime now (RedeemTicket k) db)) = events db"
      unfolding whole by simp
  }
  {
    assume edge: "dt_date (start_date ev) \<le> dt_date (end_date ev) \<and>
       (dt_date now = dt_date (start_date ev) \<or> dt_date now = dt_date (end_date ev))"
    then have lo: "dt_date (start_date ev) \<le> dt_date now"
      and hi: "dt_date now \<le> dt_date (end_date ev)" by auto
    show "fst (serve strptime now (RedeemTicket k) db) = Inr TicketRedeemed"
      by (simp add: redeem_success(1)[OF assms ev lo hi])
    show "get_ticket (snd (serve strptime now (RedeemTicket k) db)) k = Some (t\<lparr>redeemed := True\<rparr>)"
      by (rule redeem_success(2)[OF assms ev lo hi])
  }
next
  assume reach: "db = snd (serve_all strptime reqs empty_db)"
  have "t \<in> set (tickets db)" using assms(1) by (rule get_ticket_mem)
  with reach reachable_tickets_have_events[of strptime reqs]
  obtain ev where ev: "get_event db (event_id t) = Some ev" by auto
  then have "ev \<in> set (events db)" by (rule get_event_mem)
  with reach reachable_date_order[of strptime reqs]
  have "dt_date (start_date ev) \<le> dt_date (end_date ev)" by auto
  with ev show "\<exists>ev. get_event db (event_id t) = Some ev \<and>
                  dt_date (start_date ev) \<le> dt_date (end_date ev)" by blast
qed

theorem redeem_ticket_window_witness:
  "get_ticket one_sold_db 1 = Some first_ticket \<and> \<not> redeemed first_ticket \<and>
   get_event one_sold_db (event_id first_ticket) = Some (concert_event\<lparr>tickets_sold := 1\<rparr>) \<and>
   one_sold_db = snd (serve_all calendar
      [(noon 741368, CreateEvent concert), (noon 741369, SellTicket 1)] empty_db) \<and>
   dt_date (noon 741370) = dt_date (end_date (concert_event\<lparr>tickets_sold := 1\<rparr>)) \<and>
   fst (serve calendar (noon 741370) (RedeemTicket 1) one_sold_db) = Inr TicketRedeemed \<and>
   get_ticket (snd (serve calendar (noon 741370) (RedeemTicket 1) one_sold_db)) 1
     = Some (first_ticket\<lparr>redeemed := True\<rparr>) \<and>
   dt_date (end_date (concert_event\<lparr>tickets_sold := 1\<rparr>)) < dt_date (noon 741371) \<and>
   serve calendar (noon 741371) (RedeemTicket 1) one_sold_db = (Inl OutOfWindow, one_sold_db) \<and>
   get_ticket (one_sold_db\<lparr>events := [long_event]\<rparr>) 1 = Some first_ticket \<and>
   get_event (one_sold_db\<lparr>events := [long_event]\<rparr>) (event_id first_ticket) = Some long_event \<and>
   dt_date (start_date long_event) < dt_date (noon 741370) \<and>
   dt_date (noon 741370) < dt_date (end_date long_event) \<and>
   serve calendar (noon 741370) (RedeemTicket 1) (one_sold_db\<lparr>events := [long_event]\<rparr>)
     = (Inr TicketRedeemed,
        \<lparr>events = [long_event], tickets = [first_ticket\<lparr>redeemed := True\<rparr>]\<rparr>)"
proof -
  let ?ev = "concert_event\<lparr>tickets_sold := 1\<rparr>"
  let ?long = "one_sold_db\<lparr>events := [long_event]\<rparr>"
  have h1: "get_ticket one_sold_db 1 = Some first_ticket"
    by (simp add: scenario_defs get_ticket_def)
  have h2: "\<not> redeemed first_ticket" by (simp add: first_ticket_def)
  have ev: "get_event one_sold_db (event_id first_ticket) = Some ?ev"
    by (simp add: scenario_defs get_event_def)
  have reach: "one_sold_db = snd (serve_all calendar
      [(noon 741368, CreateEvent concert), (noon 741369, SellTicket 1)] empty_db)"
    by (simp add: scenario_defs handler_defs)
  have last_day: "dt_date (noon 741370) = dt_date (end_date ?ev)"
    by (simp add: scenario_defs)
  have order: "dt_date (start_date ?ev) \<le> dt_date (end_date ?ev)"
    by (simp add: scenario_defs)
  have late: "dt_date (end_date ?ev) < dt_date (noon 741371)"
    by (simp add: scenario_defs)
  from redeem_ticket_window [OF h1 h2, of calendar "noon 741370"] ev last_day order
  have a: "fst (serve calendar (noon 741370) (RedeemTicket 1) one_sold_db) = Inr TicketRedeemed"
    and b: "get_ticket (snd (serve calendar (noon 741370) (RedeemTicket 1) one_sold_db)) 1
             = Some (first_ticket\<lparr>redeemed := True\<rparr>)"
    by blast+
  from redeem_ticket_window [OF h1 h2, of calendar "noon 741371"] ev late
  have c: "serve calendar (noon 741371) (RedeemTicket 1) one_sold_db = (Inl OutOfWindow, one_sold_db)"
    by blast
  have l1: "get_ticket ?long 1 = Some first_ticket"
    by (simp add: scenario_defs get_ticket_def)
  have lev: "get_event ?long (event_id first_ticket) = Some long_event"
    by (simp add: scenario_defs long_event_def get_event_def)
  have after_start: "dt_date (start_date long_event) < dt_date (noon 741370)"
    by (simp add: scenario_defs long_event_def)
  have before_end: "dt_date (noon 741370) < dt_date (end_date long_event)"
    by (simp add: scenario_defs long_event_def)
  from redeem_ticket_window [OF l1 h2, of calendar "noon 741370"] lev after_start before_end
  have "serve calendar (noon 741370) (RedeemTicket 1) ?long =
      (Inr TicketRedeemed,
       ?long\<lparr>tickets := map (\<lambda>x. if tid x = 1 then first_ticket\<lparr>redeemed := True\<rparr> else x)
                          (tickets ?long)\<rparr>)"
    by (meson less_imp_le)
  then have d: "serve calendar (noon 741370) (RedeemTicket 1) ?long =
      (Inr TicketRedeemed, \<lparr>events = [long_event], tickets = [first_ticket\<lparr>redeemed := True\<rparr>]\<rparr>)"
    by (simp add: scenario_defs)
  from h1 h2 ev reach last_day a b late c l1 lev after_start before_end d show ?thesis by blast
qed

text \<open>
  C7. Redeeming is one-way. Redeem on a ticket that is already redeemed answers
  \<open>AlreadyRedeemed\<close> and changes nothing. No request turns the flag back: a redeemed
  ticket that is still stored after a request (create, update, delete, sell or redeem) is
  still redeemed; here \<open>tid\<close> is the primary key, so the keys are distinct, as they are
  in every state reached from the empty database. After a redeem that succeeded the ticket
  is redeemed, and a second redeem fails with \<open>AlreadyRedeemed\<close>.
\<close>

theorem redeem_is_one_way:
  "(get_ticket db k = Some t \<and> redeemed t \<longrightarrow>
      serve strptime now (RedeemTicket k) db = (Inl AlreadyRedeemed, db)) \<and>
   (get_ticket db k = Some t \<and> redeemed t \<and> distinct (map tid (tickets db)) \<and>
    get_ticket (snd (serve strptime now req db)) k = Some t' \<longrightarrow> redeemed t') \<and>
   (fst (serve strptime now (RedeemTicket k) db) = Inr TicketRedeemed \<longrightarrow>
      (\<exists>t1. get_ticket (snd (serve strptime now (RedeemTicket k) db)) k = Some t1 \<and> redeemed t1) \<and>
      serve strptime later (RedeemTicket k) (snd (serve strptime now (RedeemTicket k) db)) =
        (Inl AlreadyRedeemed, snd (serve strptime now (RedeemTicket k) db))) \<and>
   distinct (map tid (tickets (snd (serve_all strptime reqs empty_db))))"
proof (intro conjI impI)
  assume "get_ticket db k = Some t \<and> redeemed t"
  then show "serve strptime now (RedeemTicket k) db = (Inl AlreadyRedeemed, db)"
    by (simp add: serve_redeem)
next
  assume h: "get_ticket db k = Some t \<and> redeemed t \<and> distinct (map tid (tickets db)) \<and>
    get_ticket (snd (serve strptime now req db)) k = Some t'"
  then have a: "get_ticket db k = Some t" and b: "distinct (map tid (tickets db))"
    and c: "get_ticket (snd (serve strptime now req db)) k = Some t'" and r: "redeemed t"
    by simp_all
  from ticket_kept_by_request[OF a b c] r show "redeemed t'" by auto
next
  assume ok: "fst (serve strptime now (RedeemTicket k) db) = Inr TicketRedeemed"
  from redeem_replied_ok[OF ok] obtain u ev where
    u: "get_ticket db k = Some u" "\<not> redeemed u" "get_event db (event_id u) = Some ev"
      "dt_date (start_date ev) \<le> dt_date now" "dt_date now \<le> dt_date (end_date ev)"
    by blast
  have after: "get_ticket (snd (serve strptime now (RedeemTicket k) db)) k
      = Some (u\<lparr>redeemed := True\<rparr>)"
    by (rule redeem_success(2)[OF u])
  then show "\<exists>t1. get_ticket (snd (serve strptime now (RedeemTicket k) db)) k = Some t1 \<and> redeemed t1"
    by simp
  show "serve strptime later (RedeemTicket k) (snd (serve strptime now (RedeemTicket k) db)) =
        (Inl AlreadyRedeemed, snd (serve strptime now (RedeemTicket k) db))"
    using after by (simp add: serve_redeem)
next
  show "distinct (map tid (tickets (snd (serve_all strptime reqs empty_db))))"
    by (rule reachable_distinct_tids)
qed

theorem redeem_is_one_way_witness:
  "fst (serve calendar (noon 741369) (RedeemTicket 1) one_sold_db) = Inr TicketRedeemed \<and>
   snd (serve calendar (noon 741369) (RedeemTicket 1) one_sold_db)
     = one_sold_db\<lparr>tickets := [first_ticket\<lparr>redeemed := True\<rparr>]\<rparr> \<and>
   get_ticket (one_sold_db\<lparr>tickets := [first_ticket\<lparr>redeemed := True\<rparr>]\<rparr>) 1
     = Some (first_ticket\<lparr>redeemed := True\<rparr>) \<and>
   redeemed (first_ticket\<lparr>redeemed := True\<rparr>) \<and>
   distinct (map tid (tickets (one_sold_db\<lparr>tickets := [first_ticket\<lparr>redeemed := True\<rparr>]\<rparr>))) \<and>
   serve calendar (noon 741370) (RedeemTicket 1)
       (one_sold_db\<lparr>tickets := [first_ticket\<lparr>redeemed := True\<rparr>]\<rparr>)
     = (Inl AlreadyRedeemed, one_sold_db\<lparr>tickets := [first_ticket\<lparr>redeemed := True\<rparr>]\<rparr>) \<and>
   get_ticket (snd (serve calendar (noon 741370) (SellTicket 1)
       (one_sold_db\<lparr>tickets := [first_ticket\<lparr>redeemed := True\<rparr>]\<rparr>))) 1
     = Some (first_ticket\<lparr>redeemed := True\<rparr>)"
proof -
  let ?t = "first_ticket\<lparr>redeemed := True\<rparr>"
  let ?db = "one_sold_db\<lparr>tickets := [?t]\<rparr>"
  have ok: "fst (serve calendar (noon 741369) (RedeemTicket 1) one_sold_db) = Inr TicketRedeemed"
    by (simp add: scenario_defs handler_defs)
  have db: "snd (serve calendar (noon 741369) (RedeemTicket 1) one_sold_db) = ?db"
    by (simp add: scenario_defs handler_defs)
  have t: "get_ticket ?db 1 = Some ?t" by (simp add: scenario_defs get_ticket_def)
  have r: "redeemed ?t" by simp
  have keys: "distinct (map tid (tickets ?db))" by simp
  have kept: "get_ticket (snd (serve calendar (noon 741370) (SellTicket 1) ?db)) 1 = Some ?t"
    by (simp add: scenario_defs handler_defs)
  note inst = redeem_is_one_way [where db = ?db and k = 1 and t = ?t and strptime = calendar
      and now = "noon 741370" and req = "SellTicket 1" and t' = ?t]
  from inst t r have again:
    "serve calendar (noon 741370) (RedeemTicket 1) ?db = (Inl AlreadyRedeemed, ?db)"
    by blast
  from ok db t r keys again kept show ?thesis by blast
qed

text \<open>
  C8. For a stored event, delete is refused with \<open>CannotDelete\<close> exactly when tickets were
  sold and the end date is still later than the current time (\<^verbatim>\<open>event.end_date > now\<close>, on
  datetimes); a refused delete changes nothing. Otherwise, with no ticket sold or with the
  end date reached, the event is removed together with all its tickets: afterwards no event
  has its key and no ticket refers to it, and all other rows are as before.
\<close>

theorem delete_event_rule:
  assumes "get_event db i = Some ev"
  shows "(fst (serve strptime now (DeleteEvent i) db) = Inl CannotDelete \<longleftrightarrow>
            0 < tickets_sold ev \<and> dt_less now (end_date ev)) \<and>
         (0 < tickets_sold ev \<and> dt_less now (end_date ev) \<longrightarrow>
            serve strptime now (DeleteEvent i) db = (Inl CannotDelete, db)) \<and>
         (tickets_sold ev \<le> 0 \<or> \<not> dt_less now (end_date ev) \<longrightarrow>
            fst (serve strptime now (DeleteEvent i) db) = Inr EventDeleted \<and>
            get_event (snd (serve strptime now (DeleteEvent i) db)) i = None \<and>
            (\<forall>t\<in>set (tickets (snd (serve strptime now (DeleteEvent i) db))). event_id t \<noteq> i) \<and>
            events (snd (serve strptime now (DeleteEvent i) db))
              = filter (\<lambda>e. eid e \<noteq> i) (events db) \<and>
            tickets (snd (serve strptime now (DeleteEvent i) db))
              = filter (\<lambda>t. event_id t \<noteq> i) (tickets db))"
  using assms
  by (auto simp: serve_delete get_event_def find_None_iff)

theorem delete_event_rule_witness:
  "get_event sold_out_db 1 = Some (concert_event\<lparr>tickets_sold := 2\<rparr>) \<and>
   0 < tickets_sold (concert_event\<lparr>tickets_sold := 2\<rparr>) \<and>
   dt_less (noon 741369) (end_date (concert_event\<lparr>tickets_sold := 2\<rparr>)) \<and>
   serve calendar (noon 741369) (DeleteEvent 1) sold_out_db = (Inl CannotDelete, sold_out_db) \<and>
   \<not> dt_less (noon 741370) (end_date (concert_event\<lparr>tickets_sold := 2\<rparr>)) \<and>
   fst (serve calendar (noon 741370) (DeleteEvent 1) sold_out_db) = Inr EventDeleted \<and>
   snd (serve calendar (noon 741370) (DeleteEvent 1) sold_out_db) = empty_db"
proof -
  let ?ev = "concert_event\<lparr>tickets_sold := 2\<rparr>"
  have h: "get_event sold_out_db 1 = Some ?ev"
    by (simp add: scenario_defs get_event_def)
  have sold: "0 < tickets_sold ?ev" by simp
  have early: "dt_less (noon 741369) (end_date ?ev)"
    by (simp add: scenario_defs dt_less_def)
  have ended: "\<not> dt_less (noon 741370) (end_date ?ev)"
    by (simp add: scenario_defs dt_less_def)
  from delete_event_rule [OF h, of calendar "noon 741369"] sold early
  have a: "serve calendar (noon 741369) (DeleteEvent 1) sold_out_db = (Inl CannotDelete, sold_out_db)"
    by blast
  from delete_event_rule [OF h, of calendar "noon 741370"] ended
  have b: "fst (serve calendar (noon 741370) (DeleteEvent 1) sold_out_db) = Inr EventDeleted"
    and ev: "events (snd (serve calendar (noon 741370) (DeleteEvent 1) sold_out_db))
              = filter (\<lambda>e. eid e \<noteq> 1) (events sold_out_db)"
    and tk: "tickets (snd (serve calendar (noon 741370) (DeleteEvent 1) sold_out_db))
              = filter (\<lambda>t. event_id t \<noteq> 1) (tickets sold_out_db)"
    by blast+
  have c: "snd (serve calendar (noon 741370) (DeleteEvent 1) sold_out_db) = empty_db"
    using ev tk by (simp add: scenario_defs)
  from h sold early a ended b c show ?thesis by blast
qed

text \<open>
  C9. A successful create stores an event within the bounds, and a body that breaks a bound
  is never stored (\<open>create_event_bounds\<close>). But such a body is not always answered with a
  validation error: the handler parses both dates before it checks any bound, and when a
  date does not parse, its \<^verbatim>\<open>except\<close> branch builds the reply from a Python set, so the
  request ends in a \<^verbatim>\<open>TypeError\<close>, HTTP 500, instead of the 400 the branch was written to
  return. Here the start date, 19/10/2030, lies before the day of the request,
  20/10/2030, and the end date does not parse.
\<close>

theorem create_past_start_unparsable_end:
  "json_start_date (concert\<lparr>json_end_date := Some ''soon''\<rparr>) = Some ''19/10/2030'' \<and>
   calendar ''19/10/2030'' = Some \<lparr>dt_date = 741369, dt_time = 0\<rparr> \<and>
   dt_date \<lparr>dt_date = 741369, dt_time = 0\<rparr> < dt_date (noon 741370) \<and>
   json_end_date (concert\<lparr>json_end_date := Some ''soon''\<rparr>) = Some ''soon'' \<and>
   calendar ''soon'' = None \<and>
   serve calendar (noon 741370) (CreateEvent (concert\<lparr>json_end_date := Some ''soon''\<rparr>)) empty_db
     = (Inl ParseError, empty_db) \<and>
   http_status ParseError = 500 \<and> http_status StartInPast = 400"
  by (simp add: scenario_defs handler_defs)




end
